theory Spec2Isabelle
  imports Complex_Main
begin

section \<open>Strings\<close>

text \<open>
  Go strings are byte sequences; they are modelled as \<open>string\<close> (a list of 8-bit
  characters), and \<open>len\<close> is \<open>length\<close>. \<open>strings.HasPrefix\<close>, \<open>strings.HasSuffix\<close>,
  \<open>strings.Contains\<close> and \<open>strings.Count\<close> with a substring that is not empty compare
  bytes.

  Two functions read the bytes as UTF-8 and consult the Unicode tables of the Go
  library, which are not part of this repository. \<open>strings.ToLower\<close> of a string with
  a byte above 127 is \<open>strings.Map(unicode.ToLower, s)\<close>, and \<open>strings.Count\<close> with the
  empty substring is \<open>utf8.RuneCountInString(s) + 1\<close>. These two library results are
  parameters of the model, the fields of \<open>unicode_lib\<close>; every function that reaches
  them takes the parameter \<open>u\<close>. On a string of ASCII bytes the library does not
  consult the tables: \<open>ToLower\<close> maps the letters A..Z and the rune count is the length.
\<close>

record unicode_lib =
  MapToLower :: "string \<Rightarrow> string"
  RuneCountInString :: "string \<Rightarrow> nat"

definition is_ascii :: "char \<Rightarrow> bool" where
  "is_ascii c = ((of_char c :: nat) < 128)"

definition is_upper :: "char \<Rightarrow> bool" where
  "is_upper c = (65 \<le> (of_char c :: nat) \<and> (of_char c :: nat) \<le> 90)"

definition lower_char :: "char \<Rightarrow> char" where
  "lower_char c = (if is_upper c then char_of ((of_char c :: nat) + 32) else c)"

definition ToLower :: "unicode_lib \<Rightarrow> string \<Rightarrow> string" where
  "ToLower u s = (if list_all is_ascii s then map lower_char s else MapToLower u s)"

definition RuneCount :: "unicode_lib \<Rightarrow> string \<Rightarrow> nat" where
  "RuneCount u s = (if list_all is_ascii s then length s else RuneCountInString u s)"

text \<open>
  \<open>strings.Fields\<close> splits around the runs of runes for which \<open>unicode.IsSpace\<close> holds.
  These are 25 runes: U+0009 to U+000D, U+0020, U+0085, U+00A0, U+1680, U+2000 to
  U+200A, U+2028, U+2029, U+202F, U+205F and U+3000. The list below has their UTF-8
  encodings. An encoding of more than one byte starts with a leading byte of UTF-8, which
  is never inside the encoding of another rune, so such bytes in a string are always
  decoded as that rune, and the split can be found on the bytes. A byte that is not
  valid UTF-8 decodes to U+FFFD, which is not white space.
\<close>

definition space_encodings :: "nat list list" where
  "space_encodings =
     [[0x09], [0x0A], [0x0B], [0x0C], [0x0D], [0x20],
      [0xC2, 0x85], [0xC2, 0xA0],
      [0xE1, 0x9A, 0x80],
      [0xE2, 0x80, 0x80], [0xE2, 0x80, 0x81], [0xE2, 0x80, 0x82], [0xE2, 0x80, 0x83],
      [0xE2, 0x80, 0x84], [0xE2, 0x80, 0x85], [0xE2, 0x80, 0x86], [0xE2, 0x80, 0x87],
      [0xE2, 0x80, 0x88], [0xE2, 0x80, 0x89], [0xE2, 0x80, 0x8A],
      [0xE2, 0x80, 0xA8], [0xE2, 0x80, 0xA9], [0xE2, 0x80, 0xAF],
      [0xE2, 0x81, 0x9F],
      [0xE3, 0x80, 0x80]]"

text \<open>The number of bytes of the white-space rune at the head of \<open>s\<close>; 0 if there is none.\<close>

definition space_width :: "string \<Rightarrow> nat" where
  "space_width s =
     (case find (\<lambda>enc. take (length enc) (map of_char s) = enc) space_encodings of
        None \<Rightarrow> 0
      | Some enc \<Rightarrow> length enc)"

text \<open>The ASCII white space: the first six of the 25 runes.\<close>

definition is_space :: "char \<Rightarrow> bool" where
  "is_space c = ((of_char c :: nat) \<in> {9, 10, 11, 12, 13, 32})"

text \<open>\<open>strings.Fields\<close>: the maximal runs of bytes between white-space runes, in order.\<close>

function fields_from :: "string \<Rightarrow> string \<Rightarrow> string list" where
  "fields_from cur [] = (if cur = [] then [] else [cur])"
| "fields_from cur (c # cs) =
     (if space_width (c # cs) > 0
      then (if cur = [] then fields_from [] (drop (space_width (c # cs)) (c # cs))
            else cur # fields_from [] (drop (space_width (c # cs)) (c # cs)))
      else fields_from (cur @ [c]) cs)"
  by pat_completeness auto
termination
  by (relation "measure (\<lambda>(cur, s). length s)") auto

declare fields_from.simps(2) [simp del]

definition Fields :: "string \<Rightarrow> string list" where
  "Fields s = fields_from [] s"

text \<open>\<open>strings.HasPrefix\<close>, \<open>strings.HasSuffix\<close>, \<open>strings.Contains\<close>.\<close>

definition HasPrefix :: "string \<Rightarrow> string \<Rightarrow> bool" where
  "HasPrefix s p = (take (length p) s = p)"

definition HasSuffix :: "string \<Rightarrow> string \<Rightarrow> bool" where
  "HasSuffix s p = (length p \<le> length s \<and> drop (length s - length p) s = p)"

fun Contains :: "string \<Rightarrow> string \<Rightarrow> bool" where
  "Contains [] sub = (sub = [])"
| "Contains (c # cs) sub = (HasPrefix (c # cs) sub \<or> Contains cs sub)"

text \<open>
  \<open>strings.Count\<close>: the number of non-overlapping occurrences of \<open>sub\<close>, found from
  the left; for the empty \<open>sub\<close> it is the number of runes plus one.
\<close>

function count_from :: "string \<Rightarrow> string \<Rightarrow> nat" where
  "count_from [] sub = 0"
| "count_from (c # cs) sub =
     (if sub = [] then 0
      else if HasPrefix (c # cs) sub then Suc (count_from (drop (length sub) (c # cs)) sub)
      else count_from cs sub)"
  by pat_completeness auto
termination
  by (relation "measure (\<lambda>(s, sub). length s)") auto

definition Count :: "unicode_lib \<Rightarrow> string \<Rightarrow> string \<Rightarrow> nat" where
  "Count u s sub = (if sub = [] then RuneCount u s + 1 else count_from s sub)"

section \<open>The tokenizer\<close>

text \<open>
  The replacer of \<open>tokenize\<close> has 19 pairs of one byte each, so it replaces byte by
  byte: each of the 19 bytes becomes a space. The last five of the list below are the
  double quote, the single quote, line feed, tab and carriage return.
\<close>

definition punctuation :: "char list" where
  "punctuation =
     [CHR ''.'', CHR '','', CHR '';'', CHR '':'', CHR ''!'', CHR ''?'', CHR ''('', CHR '')'',
      CHR ''['', CHR '']'', CHR ''{'', CHR ''}'', CHR ''-'', CHR ''_'',
      CHR 0x22, CHR 0x27, CHR 0x0A, CHR 0x09, CHR 0x0D]"

definition replace_char :: "char \<Rightarrow> char" where
  "replace_char c = (if c \<in> set punctuation then CHR '' '' else c)"

definition Replace :: "string \<Rightarrow> string" where
  "Replace s = map replace_char s"

definition is_digit :: "char \<Rightarrow> bool" where
  "is_digit c = (48 \<le> (of_char c :: nat) \<and> (of_char c :: nat) \<le> 57)"

text \<open>
  \<open>isNumber\<close>: the loop returns false at the first rune outside 0..9. The model reads
  bytes: a byte below 128 is its own rune, and a byte from 128 on belongs to a rune
  from U+0080 on or decodes to U+FFFD, so the loop returns false there in either reading.
\<close>

fun isNumber :: "string \<Rightarrow> bool" where
  "isNumber [] = True"
| "isNumber (r # rs) =
     (if (of_char r :: nat) < 48 \<or> (of_char r :: nat) > 57 then False else isNumber rs)"

text \<open>The filter loop of \<open>tokenize\<close>, appending to \<open>tokens\<close>.\<close>

fun tokenize_loop :: "string list \<Rightarrow> string list \<Rightarrow> string list" where
  "tokenize_loop tokens [] = tokens"
| "tokenize_loop tokens (word # ws) =
     tokenize_loop (if length word > 2 \<and> \<not> isNumber word then tokens @ [word] else tokens) ws"

definition tokenize :: "unicode_lib \<Rightarrow> string \<Rightarrow> string list" where
  "tokenize u text = tokenize_loop [] (Fields (Replace (ToLower u text)))"

section \<open>Documents and the knowledge service\<close>

text \<open>
  The structs \<open>Section\<close>, \<open>Document\<close> and \<open>KnowledgeService\<close>. The logger and the
  read-write lock are left out: the model is sequential. \<open>ModTime\<close> is a number.
\<close>

record Section =
  STitle :: string
  SContent :: string
  Level :: int

record Document =
  ID :: string
  Title :: string
  Content :: string
  FilePath :: string
  ModTime :: int
  Sections :: "Section list"

record KnowledgeService =
  documents :: "string \<rightharpoonup> Document"
  knowledgeDir :: string

text \<open>
  The errors a call can return, and the two run-time panics of the vector code (an
  index outside a slice, a slice expression with a negative bound).
\<close>

datatype error =
    MkdirFailed
  | WalkFailed
  | DocumentNotFound string
  | IndexOutOfRange
  | SliceBoundsOutOfRange

text \<open>
  Go visits the keys of a map in an order that it does not specify and that changes
  from one loop to the next. Every function that ranges over a map takes the order of
  that loop as an argument \<open>ks\<close>; \<open>map_order m ks\<close> says that \<open>ks\<close> is such an order:
  every key of \<open>m\<close> once.
\<close>

definition map_order :: "('k \<rightharpoonup> 'v) \<Rightarrow> 'k list \<Rightarrow> bool" where
  "map_order m ks = (distinct ks \<and> set ks = dom m)"

definition range_values :: "('k \<rightharpoonup> 'v) \<Rightarrow> 'k list \<Rightarrow> 'v list" where
  "range_values m ks = List.map_filter m ks"

subsection \<open>Loading\<close>

text \<open>
  The file system is an input of \<open>LoadKnowledgeBase\<close>: whether \<open>os.MkdirAll\<close>
  succeeds, and the calls \<open>filepath.WalkDir\<close> makes to its callback, in order. Each
  call has the path, the error \<open>WalkDir\<close> passes (present or not), whether the entry
  is a directory, and what \<open>loadDocument\<close> returns for that path (\<open>None\<close> when reading
  or \<open>os.Stat\<close> fails, else the parsed document).
\<close>

record visit =
  v_path :: string
  v_err :: bool
  v_is_dir :: bool
  v_loaded :: "Document option"

record file_system =
  mkdir_ok :: bool
  walk :: "visit list"

text \<open>The callback: \<open>Inl\<close> is the error it returns, which stops the walk.\<close>

definition walk_fn ::
  "unicode_lib \<Rightarrow> (string \<rightharpoonup> Document) \<Rightarrow> visit \<Rightarrow> error + (string \<rightharpoonup> Document)" where
  "walk_fn u docs v =
     (if v_err v then Inl WalkFailed
      else if v_is_dir v \<or> \<not> HasSuffix (ToLower u (v_path v)) ''.md'' then Inr docs
      else (case v_loaded v of
              None \<Rightarrow> Inr docs
            | Some doc \<Rightarrow> Inr (docs(ID doc \<mapsto> doc))))"

text \<open>
  \<open>WalkDir\<close> returns the first error of the callback, if any; the map holds what the
  callback has stored up to then, since the callback writes into the service's map.
\<close>

fun WalkDir ::
  "unicode_lib \<Rightarrow> visit list \<Rightarrow> (string \<rightharpoonup> Document)
     \<Rightarrow> error option \<times> (string \<rightharpoonup> Document)" where
  "WalkDir u [] docs = (None, docs)"
| "WalkDir u (v # vs) docs =
     (case walk_fn u docs v of
        Inl e \<Rightarrow> (Some e, docs)
      | Inr docs' \<Rightarrow> WalkDir u vs docs')"

definition LoadKnowledgeBase ::
  "unicode_lib \<Rightarrow> KnowledgeService \<Rightarrow> string \<Rightarrow> file_system
     \<Rightarrow> error option \<times> KnowledgeService" where
  "LoadKnowledgeBase u s dir fs =
     (let s1 = s\<lparr>knowledgeDir := dir\<rparr> in
      if \<not> mkdir_ok fs then (Some MkdirFailed, s1)
      else
        (let s2 = s1\<lparr>documents := Map.empty\<rparr>;
             (err, docs) = WalkDir u (walk fs) (documents s2);
             s3 = s2\<lparr>documents := docs\<rparr>
         in (case err of
               Some e \<Rightarrow> (Some WalkFailed, s3)
             | None \<Rightarrow> (None, s3))))"

definition RefreshKnowledgeBase ::
  "unicode_lib \<Rightarrow> KnowledgeService \<Rightarrow> file_system \<Rightarrow> error option \<times> KnowledgeService" where
  "RefreshKnowledgeBase u s fs = LoadKnowledgeBase u s (knowledgeDir s) fs"

definition GetAllDocuments :: "KnowledgeService \<Rightarrow> string list \<Rightarrow> Document list" where
  "GetAllDocuments s ks = range_values (documents s) ks"

definition GetDocument :: "KnowledgeService \<Rightarrow> string \<Rightarrow> error + Document" where
  "GetDocument s k = (case documents s k of None \<Rightarrow> Inl (DocumentNotFound k) | Some doc \<Rightarrow> Inr doc)"

definition NewKnowledgeService :: KnowledgeService where
  "NewKnowledgeService = \<lparr>documents = Map.empty, knowledgeDir = []\<rparr>"

subsection \<open>Substring search\<close>

text \<open>The loop over the sections of a document, adding 5 for each matching title.\<close>

fun section_loop :: "unicode_lib \<Rightarrow> string \<Rightarrow> int \<Rightarrow> Section list \<Rightarrow> int" where
  "section_loop u query score [] = score"
| "section_loop u query score (sec # secs) =
     section_loop u query
       (if Contains (ToLower u (STitle sec)) query then score + 5 else score) secs"

text \<open>The score of one document; \<open>query\<close> is the lowercased query.\<close>

definition doc_score :: "unicode_lib \<Rightarrow> string \<Rightarrow> Document \<Rightarrow> int" where
  "doc_score u query doc =
     (let score = 0;
          score = (if Contains (ToLower u (Title doc)) query then score + 10 else score);
          contentLower = ToLower u (Content doc);
          score = score + int (Count u contentLower query)
      in section_loop u query score (Sections doc))"

text \<open>
  The loop of \<open>SearchDocuments\<close> over the documents in the order of this call. The
  test against \<open>limit\<close> comes after the append.
\<close>

fun search_loop ::
  "unicode_lib \<Rightarrow> string \<Rightarrow> int \<Rightarrow> Document list \<Rightarrow> Document list \<Rightarrow> Document list" where
  "search_loop u query limit results [] = results"
| "search_loop u query limit results (doc # docs) =
     (if doc_score u query doc > 0 then
        (let results' = results @ [doc] in
         if int (length results') \<ge> limit then results'
         else search_loop u query limit results' docs)
      else search_loop u query limit results docs)"

text \<open>\<open>SearchDocuments\<close> always returns a nil error; the model returns the list.\<close>

definition SearchDocuments ::
  "unicode_lib \<Rightarrow> KnowledgeService \<Rightarrow> string \<Rightarrow> int \<Rightarrow> string list \<Rightarrow> Document list" where
  "SearchDocuments u s query limit ks =
     search_loop u (ToLower u query) limit [] (range_values (documents s) ks)"


section \<open>The embedding service\<close>

text \<open>
  \<open>float32\<close> and \<open>float64\<close> are modelled as real numbers: the arithmetic is exact, and
  rounding, overflow and NaN are not modelled. The theorems below are about the
  formulas the code evaluates, not about their rounded values.

  The maps of \<open>SimpleEmbeddingService\<close> and the local maps \<open>df\<close> and \<open>tf\<close> are
  association lists with one pair for each key, in the order the keys were first
  stored; \<open>map_of\<close> reads them and \<open>length\<close> is Go's \<open>len\<close>.
\<close>

type_synonym float32 = real
type_synonym float64 = real

record SimpleEmbeddingService =
  vocabulary :: "(string \<times> nat) list"
  idf :: "(string \<times> float64) list"

definition NewSimpleEmbeddingService :: SimpleEmbeddingService where
  "NewSimpleEmbeddingService = \<lparr>vocabulary = [], idf = []\<rparr>"

text \<open>\<open>m[k]++\<close> on a map of counters: a missing key counts as 0.\<close>

fun incr :: "string \<Rightarrow> (string \<times> nat) list \<Rightarrow> (string \<times> nat) list" where
  "incr k [] = [(k, 1)]"
| "incr k ((k', n) # m) = (if k = k' then (k', n + 1) # m else (k', n) # incr k m)"

text \<open>
  The loop of \<open>BuildVocabulary\<close> over the tokens of one document. The state is the
  vocabulary, \<open>vocabIndex\<close>, \<open>df\<close> and the tokens \<open>seen\<close> in this document.
\<close>

fun token_loop ::
  "string list \<Rightarrow> (string \<times> nat) list \<times> nat \<times> (string \<times> nat) list \<times> string list
     \<Rightarrow> (string \<times> nat) list \<times> nat \<times> (string \<times> nat) list \<times> string list" where
  "token_loop [] st = st"
| "token_loop (token # tokens) (vocab, vocabIndex, df, seen) =
     (let (vocab, vocabIndex) =
            (if map_of vocab token = None
             then (vocab @ [(token, vocabIndex)], vocabIndex + 1)
             else (vocab, vocabIndex));
          (df, seen) =
            (if token \<notin> set seen then (incr token df, token # seen) else (df, seen))
      in token_loop tokens (vocab, vocabIndex, df, seen))"

text \<open>The loop over the documents; \<open>seen\<close> starts empty for each one.\<close>

fun doc_loop ::
  "unicode_lib \<Rightarrow> Document list \<Rightarrow> (string \<times> nat) list \<times> nat \<times> (string \<times> nat) list
     \<Rightarrow> (string \<times> nat) list \<times> nat \<times> (string \<times> nat) list" where
  "doc_loop u [] st = st"
| "doc_loop u (doc # docs) (vocab, vocabIndex, df) =
     (let tokens = tokenize u (Content doc);
          (vocab, vocabIndex, df, seen) = token_loop tokens (vocab, vocabIndex, df, [])
      in doc_loop u docs (vocab, vocabIndex, df))"

text \<open>
  \<open>BuildVocabulary\<close> resets both maps of the receiver first, so the service it leaves
  depends on the documents only. The last loop stores one IDF value for each key of
  \<open>df\<close>; the keys differ, so the order of that loop does not matter.
\<close>

definition BuildVocabulary :: "unicode_lib \<Rightarrow> Document list \<Rightarrow> SimpleEmbeddingService" where
  "BuildVocabulary u docs =
     (let totalDocs = length docs;
          (vocab, vocabIndex, df) = doc_loop u docs ([], 0, [])
      in \<lparr>vocabulary = vocab,
          idf = map (\<lambda>(token, freq). (token, ln (real totalDocs / real freq))) df\<rparr>)"

text \<open>\<open>s.idf[token]\<close>: a missing key reads as 0.\<close>

definition idf_value :: "SimpleEmbeddingService \<Rightarrow> string \<Rightarrow> float64" where
  "idf_value s token = (case map_of (idf s) token of None \<Rightarrow> 0 | Some x \<Rightarrow> x)"

text \<open>The term-frequency loop of \<open>GetEmbedding\<close>.\<close>

fun tf_loop :: "string list \<Rightarrow> (string \<times> nat) list \<Rightarrow> (string \<times> nat) list" where
  "tf_loop [] tf = tf"
| "tf_loop (token # tokens) tf = tf_loop tokens (incr token tf)"

text \<open>
  The TF-IDF loop, over the pairs of \<open>tf\<close> in the order they were first stored (Go
  leaves the order open; it matters only when two tokens share an index, which a
  vocabulary built by \<open>BuildVocabulary\<close> excludes). \<open>n\<close> is \<open>len(tokens)\<close>. A write
  outside the vector is Go's index panic.
\<close>

fun tfidf_loop ::
  "SimpleEmbeddingService \<Rightarrow> nat \<Rightarrow> (string \<times> nat) list \<Rightarrow> float32 list \<Rightarrow> error + float32 list" where
  "tfidf_loop s n [] vector = Inr vector"
| "tfidf_loop s n ((token, freq) # tf) vector =
     (case map_of (vocabulary s) token of
        None \<Rightarrow> tfidf_loop s n tf vector
      | Some idx \<Rightarrow>
          (let tfValue = real freq / real n;
               idfValue = idf_value s token
           in if idx < length vector
              then tfidf_loop s n tf (vector[idx := tfValue * idfValue])
              else Inl IndexOutOfRange))"

text \<open>\<open>GetEmbedding\<close> always returns a nil error; \<open>Inl\<close> is the panic.\<close>

definition GetEmbedding ::
  "unicode_lib \<Rightarrow> SimpleEmbeddingService \<Rightarrow> string \<Rightarrow> error + float32 list" where
  "GetEmbedding u s text =
     (let tokens = tokenize u text;
          vector = replicate (length (vocabulary s)) 0;
          tf = tf_loop tokens []
      in tfidf_loop s (length tokens) tf vector)"

text \<open>The loop of \<open>CosineSimilarity\<close>, run on vectors of equal length.\<close>

fun cosine_loop ::
  "float32 list \<Rightarrow> float32 list \<Rightarrow> float32 \<times> float32 \<times> float32 \<Rightarrow> float32 \<times> float32 \<times> float32" where
  "cosine_loop (x # a) (y # b) (dotProduct, normA, normB) =
     cosine_loop a b (dotProduct + x * y, normA + x * x, normB + y * y)"
| "cosine_loop [] b acc = acc"
| "cosine_loop a [] acc = acc"

definition CosineSimilarity :: "float32 list \<Rightarrow> float32 list \<Rightarrow> float32" where
  "CosineSimilarity a b =
     (if length a \<noteq> length b then 0
      else
        (let (dotProduct, normA, normB) = cosine_loop a b (0, 0, 0)
         in if normA = 0 \<or> normB = 0 then 0
            else dotProduct / (sqrt normA * sqrt normB)))"

section \<open>The vector knowledge service\<close>

text \<open>
  \<open>VectorKnowledgeService\<close> embeds \<open>*KnowledgeService\<close> (the field \<open>base\<close>) and adds
  the embedding service and the document vectors.
\<close>

record DocumentWithScore =
  Doc :: Document
  Score :: float32

record VectorKnowledgeService =
  base :: KnowledgeService
  embedding :: SimpleEmbeddingService
  docVectors :: "string \<rightharpoonup> float32 list"

definition NewVectorKnowledgeService :: VectorKnowledgeService where
  "NewVectorKnowledgeService =
     \<lparr>base = NewKnowledgeService, embedding = NewSimpleEmbeddingService, docVectors = Map.empty\<rparr>"

text \<open>The loop that creates the document vectors.\<close>

fun vector_loop ::
  "unicode_lib \<Rightarrow> SimpleEmbeddingService \<Rightarrow> Document list \<Rightarrow> (string \<rightharpoonup> float32 list)
     \<Rightarrow> error + (string \<rightharpoonup> float32 list)" where
  "vector_loop u e [] dv = Inr dv"
| "vector_loop u e (doc # docs) dv =
     (case GetEmbedding u e (Content doc) of
        Inl p \<Rightarrow> Inl p
      | Inr vector \<Rightarrow> vector_loop u e docs (dv(ID doc \<mapsto> vector)))"

text \<open>
  \<open>VectorKnowledgeService.LoadKnowledgeBase\<close>; \<open>ks\<close> is the order in which
  \<open>GetAllDocuments\<close> ranges over the documents. A panic is returned as the error.
\<close>

definition Vector_LoadKnowledgeBase ::
  "unicode_lib \<Rightarrow> VectorKnowledgeService \<Rightarrow> string \<Rightarrow> file_system \<Rightarrow> string list
     \<Rightarrow> error option \<times> VectorKnowledgeService" where
  "Vector_LoadKnowledgeBase u v dir fs ks =
     (let (err, b) = LoadKnowledgeBase u (base v) dir fs;
          v1 = v\<lparr>base := b\<rparr>
      in case err of
           Some e \<Rightarrow> (Some e, v1)
         | None \<Rightarrow>
             (let docs = GetAllDocuments (base v1) ks;
                  v2 = v1\<lparr>embedding := BuildVocabulary u docs\<rparr>;
                  v3 = v2\<lparr>docVectors := Map.empty\<rparr>
              in case vector_loop u (embedding v3) docs (docVectors v3) of
                   Inl p \<Rightarrow> (Some p, v3)
                 | Inr dv \<Rightarrow> (None, v3\<lparr>docVectors := dv\<rparr>)))"

text \<open>
  \<open>VectorKnowledgeService\<close> declares no \<open>RefreshKnowledgeBase\<close>. A call of it on the
  vector service is the method promoted from the embedded \<open>*KnowledgeService\<close>: its
  receiver is the embedded service, and the \<open>s.LoadKnowledgeBase\<close> in its body is
  \<open>KnowledgeService.LoadKnowledgeBase\<close>.
\<close>

definition Vector_RefreshKnowledgeBase ::
  "unicode_lib \<Rightarrow> VectorKnowledgeService \<Rightarrow> file_system
     \<Rightarrow> error option \<times> VectorKnowledgeService" where
  "Vector_RefreshKnowledgeBase u v fs =
     (let (err, b) = RefreshKnowledgeBase u (base v) fs in (err, v\<lparr>base := b\<rparr>))"

text \<open>
  The loop of \<open>VectorSearch\<close> over \<open>docVectors\<close> in the order \<open>ks\<close> of this call. The
  constant \<open>0.1\<close> is the threshold.
\<close>

fun score_loop ::
  "VectorKnowledgeService \<Rightarrow> float32 list \<Rightarrow> string list \<Rightarrow> DocumentWithScore list
     \<Rightarrow> DocumentWithScore list" where
  "score_loop v queryVector [] results = results"
| "score_loop v queryVector (docID # ks) results =
     (case docVectors v docID of
        None \<Rightarrow> score_loop v queryVector ks results
      | Some docVector \<Rightarrow>
          (case documents (base v) docID of
             None \<Rightarrow> score_loop v queryVector ks results
           | Some doc \<Rightarrow>
               (let score = CosineSimilarity queryVector docVector
                in if score > 0.1
                   then score_loop v queryVector ks (results @ [\<lparr>Doc = doc, Score = score\<rparr>])
                   else score_loop v queryVector ks results)))"

text \<open>
  \<open>sort.Slice\<close> with \<open>less(i, j) = results[i].Score > results[j].Score\<close>: a sort by
  falling score. It is not stable in Go; the model keeps equal scores in their order.
\<close>

definition sort_by_score :: "DocumentWithScore list \<Rightarrow> DocumentWithScore list" where
  "sort_by_score results = sort_key (\<lambda>r. - Score r) results"

text \<open>
  \<open>VectorSearch\<close>. The slice expression \<open>results[:limit]\<close> is evaluated when
  \<open>len(results) > limit\<close>; with a negative \<open>limit\<close> it panics.
\<close>

definition VectorSearch ::
  "unicode_lib \<Rightarrow> VectorKnowledgeService \<Rightarrow> string \<Rightarrow> int \<Rightarrow> string list
     \<Rightarrow> error + DocumentWithScore list" where
  "VectorSearch u v query limit ks =
     (case GetEmbedding u (embedding v) query of
        Inl p \<Rightarrow> Inl p
      | Inr queryVector \<Rightarrow>
          (let results = score_loop v queryVector ks [];
               results = sort_by_score results
           in if int (length results) > limit
              then (if limit < 0 then Inl SliceBoundsOutOfRange
                    else Inr (take (nat limit) results))
              else Inr results))"

text \<open>
  What a walk has stored when it stops: the documents of the visits before the first
  error, a later one replacing an earlier one of the same \<open>ID\<close>. This is the
  description the load is compared with.
\<close>

definition stored_entry :: "unicode_lib \<Rightarrow> visit \<Rightarrow> (string \<times> Document) option" where
  "stored_entry u v =
     (if \<not> v_is_dir v \<and> HasSuffix (ToLower u (v_path v)) ''.md''
      then map_option (\<lambda>d. (ID d, d)) (v_loaded v) else None)"

definition loaded_before_error :: "unicode_lib \<Rightarrow> visit list \<Rightarrow> (string \<rightharpoonup> Document)" where
  "loaded_before_error u vs =
     map_of (rev (List.map_filter (stored_entry u) (takeWhile (\<lambda>v. \<not> v_err v) vs)))"

text \<open>
  Notions used to state the properties of the embedding service: a vocabulary is
  dense when its indices are 0, 1, ... in the order of the list and its keys differ;
  \<open>counter\<close> reads a map of counters; the document frequency of a token is the number
  of documents whose token list contains it; \<open>relevant\<close> and \<open>scored\<close> describe the
  entries \<open>VectorSearch\<close> keeps.
\<close>

definition dense_vocabulary :: "(string \<times> nat) list \<Rightarrow> bool" where
  "dense_vocabulary vocab = (map snd vocab = [0..<length vocab] \<and> distinct (map fst vocab))"

definition counter :: "(string \<times> nat) list \<Rightarrow> string \<Rightarrow> nat" where
  "counter m k = (case map_of m k of None \<Rightarrow> 0 | Some n \<Rightarrow> n)"

definition positive_counts :: "(string \<times> nat) list \<Rightarrow> bool" where
  "positive_counts m = (0 \<notin> snd ` set m)"

definition document_frequency :: "unicode_lib \<Rightarrow> Document list \<Rightarrow> string \<Rightarrow> nat" where
  "document_frequency u docs token =
     length (filter (\<lambda>doc. token \<in> set (tokenize u (Content doc))) docs)"



subsection \<open>Example data\<close>

text \<open>
  Every string of the examples is ASCII, so the Unicode parameters are not consulted.
  The closed examples fix them to \<open>no_unicode\<close>, which leaves a string as it is and
  counts its bytes.
\<close>

definition no_unicode :: unicode_lib where
  "no_unicode = \<lparr>MapToLower = (\<lambda>s. s), RuneCountInString = length\<rparr>"

definition doc_cats :: Document where
  "doc_cats = \<lparr>ID = ''a'', Title = ''Alpha'', Content = ''cats are great'',
      FilePath = ''kb/a.md'', ModTime = 0, Sections = [\<lparr>STitle = ''Alpha'', SContent = ''cats are great'', Level = 1\<rparr>]\<rparr>"

definition doc_dogs :: Document where
  "doc_dogs = \<lparr>ID = ''b'', Title = ''Beta'', Content = ''dogs are great'',
      FilePath = ''kb/b.md'', ModTime = 0, Sections = [\<lparr>STitle = ''Beta'', SContent = ''dogs are great'', Level = 1\<rparr>]\<rparr>"

definition service_cats :: KnowledgeService where
  "service_cats = \<lparr>documents = [''a'' \<mapsto> doc_cats], knowledgeDir = ''kb''\<rparr>"

definition unreadable_root :: file_system where
  "unreadable_root = \<lparr>mkdir_ok = True,
      walk = [\<lparr>v_path = ''kb'', v_err = False, v_is_dir = True, v_loaded = None\<rparr>,
              \<lparr>v_path = ''kb'', v_err = True, v_is_dir = True, v_loaded = None\<rparr>]\<rparr>"

definition failing_subdir :: file_system where
  "failing_subdir = \<lparr>mkdir_ok = True,
      walk = [\<lparr>v_path = ''kb'', v_err = False, v_is_dir = True, v_loaded = None\<rparr>,
              \<lparr>v_path = ''kb/b.MD'', v_err = False, v_is_dir = False, v_loaded = Some doc_dogs\<rparr>,
              \<lparr>v_path = ''kb/sub'', v_err = True, v_is_dir = True, v_loaded = None\<rparr>,
              \<lparr>v_path = ''kb/z.md'', v_err = False, v_is_dir = False, v_loaded = Some doc_cats\<rparr>]\<rparr>"


definition service_two :: KnowledgeService where
  "service_two = \<lparr>documents = [''a'' \<mapsto> doc_cats, ''b'' \<mapsto> doc_dogs], knowledgeDir = ''kb''\<rparr>"


definition doc_birds :: Document where
  "doc_birds = \<lparr>ID = ''a'', Title = ''Alpha'', Content = ''birds are great'',
      FilePath = ''kb/a.md'', ModTime = 1, Sections = [\<lparr>STitle = ''Alpha'', SContent = ''birds are great'', Level = 1\<rparr>]\<rparr>"

definition two_files :: file_system where
  "two_files = \<lparr>mkdir_ok = True,
      walk = [\<lparr>v_path = ''kb'', v_err = False, v_is_dir = True, v_loaded = None\<rparr>,
              \<lparr>v_path = ''kb/a.md'', v_err = False, v_is_dir = False, v_loaded = Some doc_cats\<rparr>,
              \<lparr>v_path = ''kb/b.md'', v_err = False, v_is_dir = False, v_loaded = Some doc_dogs\<rparr>]\<rparr>"

definition two_files_changed :: file_system where
  "two_files_changed = \<lparr>mkdir_ok = True,
      walk = [\<lparr>v_path = ''kb'', v_err = False, v_is_dir = True, v_loaded = None\<rparr>,
              \<lparr>v_path = ''kb/a.md'', v_err = False, v_is_dir = False, v_loaded = Some doc_birds\<rparr>,
              \<lparr>v_path = ''kb/b.md'', v_err = False, v_is_dir = False, v_loaded = Some doc_dogs\<rparr>]\<rparr>"

definition embedding_two :: SimpleEmbeddingService where
  "embedding_two =
     \<lparr>vocabulary = [(''cats'', 0), (''are'', 1), (''great'', 2), (''dogs'', 3)],
      idf = [(''cats'', ln 2), (''are'', 0), (''great'', 0), (''dogs'', ln 2)]\<rparr>"

definition index_two :: VectorKnowledgeService where
  "index_two =
     \<lparr>base = \<lparr>documents = [''a'' \<mapsto> doc_cats, ''b'' \<mapsto> doc_dogs], knowledgeDir = ''kb''\<rparr>,
      embedding = embedding_two,
      docVectors = [''a'' \<mapsto> [ln 2 / 3, 0, 0, 0], ''b'' \<mapsto> [0, 0, 0, ln 2 / 3]]\<rparr>"

definition index_refreshed :: VectorKnowledgeService where
  "index_refreshed =
     \<lparr>base = \<lparr>documents = [''a'' \<mapsto> doc_birds, ''b'' \<mapsto> doc_dogs], knowledgeDir = ''kb''\<rparr>,
      embedding = embedding_two,
      docVectors = [''a'' \<mapsto> [ln 2 / 3, 0, 0, 0], ''b'' \<mapsto> [0, 0, 0, ln 2 / 3]]\<rparr>"

section \<open>Facts about the tokenizer\<close>

lemma isNumber_iff: "isNumber s = list_all is_digit s"
  by (induction s) (auto simp: is_digit_def)

lemma tokenize_loop_filter:
  "tokenize_loop acc ws = acc @ filter (\<lambda>w. 2 < length w \<and> \<not> isNumber w) ws"
  by (induction ws arbitrary: acc) auto

lemma space_width_single:
  "is_space c \<Longrightarrow> space_width (c # cs) = 1"
  unfolding is_space_def space_width_def space_encodings_def
  by (elim insertE emptyE) simp_all

lemma space_width_ascii_other:
  "is_ascii c \<Longrightarrow> \<not> is_space c \<Longrightarrow> space_width (c # cs) = 0"
  unfolding is_space_def is_ascii_def space_width_def space_encodings_def
  by simp

lemma space_width_ascii:
  "is_ascii c \<Longrightarrow> space_width (c # cs) = (if is_space c then 1 else 0)"
  by (simp add: space_width_single space_width_ascii_other)

lemma space_width_zero: "space_width (c # cs) = 0 \<Longrightarrow> \<not> is_space c"
  using space_width_single [of c cs] by auto

lemma fields_from_ascii:
  "is_ascii c \<Longrightarrow> fields_from cur (c # cs) =
     (if is_space c then (if cur = [] then fields_from [] cs else cur # fields_from [] cs)
      else fields_from (cur @ [c]) cs)"
  by (simp add: fields_from.simps(2) space_width_ascii)

lemma fields_from_words:
  "(\<forall>c\<in>set cur. \<not> is_space c) \<Longrightarrow> w \<in> set (fields_from cur s) \<Longrightarrow>
     w \<noteq> [] \<and> (\<forall>c\<in>set w. \<not> is_space c) \<and> set w \<subseteq> set cur \<union> set s"
proof (induction "length s" arbitrary: cur s rule: less_induct)
  case less
  show ?case
  proof (cases s)
    case Nil
    with less(3) have "cur \<noteq> [] \<and> w = cur" by (cases "cur = []") simp_all
    with less(2) show ?thesis by simp
  next
    case (Cons c cs)
    show ?thesis
    proof (cases "space_width (c # cs) > 0")
      case True
      let ?rest = "drop (space_width (c # cs)) (c # cs)"
      from True have shorter: "length ?rest < length s" by (simp add: Cons)
      have sub: "set ?rest \<subseteq> set s" unfolding Cons by (rule set_drop_subset)
      have "w = cur \<and> cur \<noteq> [] \<or> w \<in> set (fields_from [] ?rest)"
        using less(3) True unfolding Cons
        by (cases "cur = []") (simp_all add: fields_from.simps(2))
      then show ?thesis
      proof
        assume "w = cur \<and> cur \<noteq> []"
        with less(2) show ?thesis by auto
      next
        assume a: "w \<in> set (fields_from [] ?rest)"
        have "w \<noteq> [] \<and> (\<forall>c\<in>set w. \<not> is_space c) \<and> set w \<subseteq> set [] \<union> set ?rest"
          by (rule less(1) [OF shorter _ a]) simp
        with sub show ?thesis by auto
      qed
    next
      case False
      then have z: "space_width (c # cs) = 0" by simp
      from less(3) z have a: "w \<in> set (fields_from (cur @ [c]) cs)"
        unfolding Cons by (simp add: fields_from.simps(2))
      from space_width_zero [OF z] less(2) have b: "\<forall>d\<in>set (cur @ [c]). \<not> is_space d" by simp
      have shorter: "length cs < length s" by (simp add: Cons)
      have "w \<noteq> [] \<and> (\<forall>c\<in>set w. \<not> is_space c) \<and> set w \<subseteq> set (cur @ [c]) \<union> set cs"
        by (rule less(1) [OF shorter b a])
      then show ?thesis unfolding Cons by auto
    qed
  qed
qed

lemma Fields_words:
  "w \<in> set (Fields s) \<Longrightarrow> w \<noteq> [] \<and> (\<forall>c\<in>set w. \<not> is_space c) \<and> set w \<subseteq> set s"
  using fields_from_words [of "[]" w s] by (simp add: Fields_def)

lemma replace_char_cases: "replace_char c = c \<and> c \<notin> set punctuation \<or> replace_char c = CHR '' ''"
  by (simp add: replace_char_def)

lemma space_is_space: "is_space (CHR '' '')"
  by (simp add: is_space_def)

lemma Replace_chars: "c \<in> set (Replace s) \<Longrightarrow> c \<notin> set punctuation \<or> is_space c"
proof -
  assume "c \<in> set (Replace s)"
  then obtain d where c: "c = replace_char d" by (auto simp: Replace_def)
  from replace_char_cases [of d] show ?thesis using space_is_space by (auto simp: c)
qed

lemma lower_char_not_upper: "\<not> is_upper (lower_char c)"
  by (auto simp: lower_char_def is_upper_def)

lemma ToLower_ascii: "list_all is_ascii s \<Longrightarrow> ToLower u s = map lower_char s"
  by (simp add: ToLower_def)

lemma Fields_ideographic_space:
  "Fields (''abc'' @ [CHR 0xE3, CHR 0x80, CHR 0x80] @ ''def'') = [''abc'', ''def'']"
  by (simp add: Fields_def fields_from.simps(2) space_width_def space_encodings_def)

lemma Fields_no_break_space:
  "Fields (''ab'' @ [CHR 0xC2, CHR 0xA0] @ ''cd ef'') = [''ab'', ''cd'', ''ef'']"
  by (simp add: Fields_def fields_from.simps(2) space_width_def space_encodings_def)

text \<open>
  C9. \<open>tokenize\<close> is a function of its input text (and of what the Go library does
  with Unicode). Its result is the list of the fields of the lowercased text, that is
  \<open>strings.Fields\<close> after the replacer has turned the 19 punctuation and white-space
  bytes into spaces, without the fields of length at most 2 and without the fields made
  of digits only. Every token returned is longer than 2, has a character that is not a
  digit, and has none of the replaced bytes and no ASCII white space.
\<close>

theorem tokenize_spec:
  "tokenize u t = filter (\<lambda>w. \<not> (length w \<le> 2 \<or> list_all is_digit w)) (Fields (Replace (ToLower u t)))
   \<and> (\<forall>w \<in> set (tokenize u t). 2 < length w \<and> (\<exists>c \<in> set w. \<not> is_digit c)
         \<and> (\<forall>c \<in> set w. \<not> is_space c \<and> c \<notin> set punctuation))"
proof -
  have eq: "tokenize u t = filter (\<lambda>w. \<not> (length w \<le> 2 \<or> list_all is_digit w)) (Fields (Replace (ToLower u t)))"
    by (simp add: tokenize_def tokenize_loop_filter isNumber_iff not_le)
  have "2 < length w \<and> (\<exists>c \<in> set w. \<not> is_digit c)
         \<and> (\<forall>c \<in> set w. \<not> is_space c \<and> c \<notin> set punctuation)"
    if w: "w \<in> set (tokenize u t)" for w
  proof -
    from w eq have f: "w \<in> set (Fields (Replace (ToLower u t)))" and l: "2 < length w"
      and d: "\<not> list_all is_digit w" by auto
    from d have "\<exists>c \<in> set w. \<not> is_digit c" by (simp add: list_all_iff)
    moreover from Fields_words [OF f] Replace_chars [of _ "ToLower u t"]
    have "\<forall>c \<in> set w. \<not> is_space c \<and> c \<notin> set punctuation" by blast
    ultimately show ?thesis using l by simp
  qed
  with eq show ?thesis by blast
qed

lemmas string_eval = tokenize_def Fields_def Replace_def ToLower_def lower_char_def is_upper_def
  replace_char_def punctuation_def is_space_def is_ascii_def char_of_eq_iff fields_from_ascii

theorem tokenize_spec_witness:
  "tokenize no_unicode ''A-b1c, 42 Go! Dogs'' = [''b1c'', ''dogs'']
   \<and> filter (\<lambda>w. \<not> (length w \<le> 2 \<or> list_all is_digit w))
        (Fields (Replace (ToLower no_unicode ''A-b1c, 42 Go! Dogs''))) = [''b1c'', ''dogs'']"
proof -
  have e: "tokenize no_unicode ''A-b1c, 42 Go! Dogs'' = [''b1c'', ''dogs'']"
    by (simp add: string_eval)
  from tokenize_spec [of no_unicode "''A-b1c, 42 Go! Dogs''"]
  have h: "tokenize no_unicode ''A-b1c, 42 Go! Dogs'' = filter (\<lambda>w. \<not> (length w \<le> 2 \<or> list_all is_digit w))
        (Fields (Replace (ToLower no_unicode ''A-b1c, 42 Go! Dogs'')))"
    by (rule conjunct1)
  from e h show ?thesis by argo
qed

section \<open>Facts about substring search\<close>

lemma section_loop_eq:
  "section_loop u q sc secs =
     sc + 5 * int (length (filter (\<lambda>sec. Contains (ToLower u (STitle sec)) q) secs))"
  by (induction secs arbitrary: sc) simp_all

lemma doc_score_eq:
  "doc_score u q d =
     (if Contains (ToLower u (Title d)) q then 10 else 0)
     + int (Count u (ToLower u (Content d)) q)
     + 5 * int (length (filter (\<lambda>sec. Contains (ToLower u (STitle sec)) q) (Sections d)))"
  by (simp add: doc_score_def Let_def section_loop_eq)

lemma Contains_empty: "Contains s []"
  by (cases s) (simp_all add: HasPrefix_def)

lemma doc_score_empty_query: "10 < doc_score u [] d"
  by (simp add: doc_score_eq Contains_empty Count_def)

lemma search_loop_eq:
  "search_loop u q limit results docs =
     (let pos = filter (\<lambda>d. 0 < doc_score u q d) docs in
      if pos = [] then results
      else results @ take (nat (max 1 (limit - int (length results)))) pos)"
proof (induction docs arbitrary: results)
  case Nil
  show ?case by simp
next
  case (Cons doc docs)
  show ?case
  proof (cases "0 < doc_score u q doc")
    case False
    then show ?thesis using Cons [of results] by (simp add: Let_def)
  next
    case True
    show ?thesis
    proof (cases "limit \<le> int (length results) + 1")
      case le: True
      then have "nat (max 1 (limit - int (length results))) = 1" by simp
      with True le show ?thesis by (simp add: Let_def)
    next
      case gt: False
      then have n: "nat (max 1 (limit - int (length results)))
          = Suc (nat (max 1 (limit - int (length (results @ [doc])))))" by simp
      from True gt have "search_loop u q limit results (doc # docs)
          = search_loop u q limit (results @ [doc]) docs" by (simp add: Let_def)
      also have "\<dots> = (let pos = filter (\<lambda>d. 0 < doc_score u q d) docs in
          if pos = [] then results @ [doc]
          else (results @ [doc]) @ take (nat (max 1 (limit - int (length (results @ [doc]))))) pos)"
        by (rule Cons)
      finally show ?thesis using True unfolding n by (simp add: Let_def)
    qed
  qed
qed

lemma ToLower_Nil: "ToLower u [] = []"
  by (simp add: ToLower_def)

lemma SearchDocuments_eq:
  "SearchDocuments u s query limit ks =
     take (nat (max 1 limit))
       (filter (\<lambda>d. 0 < doc_score u (ToLower u query) d) (range_values (documents s) ks))"
  by (simp add: SearchDocuments_def search_loop_eq Let_def)

lemma range_values_map:
  "set ks \<subseteq> dom m \<Longrightarrow> range_values m ks = map (\<lambda>k. the (m k)) ks"
  by (induction ks) (auto simp: range_values_def List.map_filter_simps)

lemma set_range_values: "map_order m ks \<Longrightarrow> set (range_values m ks) = ran m"
proof -
  assume o: "map_order m ks"
  then have "range_values m ks = map (\<lambda>k. the (m k)) ks"
    by (simp add: range_values_map map_order_def)
  then have "set (range_values m ks) = (\<lambda>k. the (m k)) ` dom m"
    using o by (simp add: map_order_def)
  also have "\<dots> = ran m"
    by (force simp: ran_def dom_def image_iff)
  finally show ?thesis .
qed

lemma length_range_values: "map_order m ks \<Longrightarrow> length (range_values m ks) = card (dom m)"
  using range_values_map [of ks m] distinct_card [of ks] by (simp add: map_order_def)

lemma ToLower_cats: "ToLower u ''cats'' = ''cats''"
  by (simp add: ToLower_def is_ascii_def lower_char_def is_upper_def)

lemma ToLower_Alpha: "ToLower u ''Alpha'' = ''alpha''"
  by (simp add: ToLower_def is_ascii_def lower_char_def is_upper_def char_of_eq_iff)

lemma ToLower_cats_are_great: "ToLower u ''cats are great'' = ''cats are great''"
  by (simp add: ToLower_def is_ascii_def lower_char_def is_upper_def)

lemma doc_score_cats: "doc_score u ''cats'' doc_cats = 1"
  by (simp add: doc_score_eq doc_cats_def ToLower_Alpha ToLower_cats_are_great Count_def HasPrefix_def)


text \<open>
  C5. The substring search scores a document with 10 for a title that contains the
  lowercased query, 1 for each occurrence in the content and 5 for each section title
  that contains it (lemma \<open>doc_score_eq\<close>), and returns documents of positive score
  only (lemma \<open>SearchDocuments_eq\<close>). The bound "at most \<open>limit\<close> of them" fails for
  \<open>limit = 0\<close>: the loop tests the length against \<open>limit\<close> only after it has appended
  a document, so a corpus with one matching document gives one result.
\<close>

theorem SearchDocuments_limit_zero:
  "SearchDocuments u service_cats ''cats'' 0 [''a''] = [doc_cats]
   \<and> int (length (SearchDocuments u service_cats ''cats'' 0 [''a''])) > 0"
  by (simp add: SearchDocuments_eq service_cats_def range_values_def ToLower_cats doc_score_cats)

section \<open>Facts about loading\<close>

lemma loaded_before_error_Nil: "loaded_before_error u [] = Map.empty"
  by (simp add: loaded_before_error_def)

lemma loaded_before_error_err: "v_err v \<Longrightarrow> loaded_before_error u (v # vs) = Map.empty"
  by (simp add: loaded_before_error_def)

lemma loaded_before_error_skip:
  "\<not> v_err v \<Longrightarrow> stored_entry u v = None \<Longrightarrow> loaded_before_error u (v # vs) = loaded_before_error u vs"
  by (simp add: loaded_before_error_def)

lemma loaded_before_error_store:
  "\<not> v_err v \<Longrightarrow> stored_entry u v = Some (k, d) \<Longrightarrow>
     loaded_before_error u (v # vs) = [k \<mapsto> d] ++ loaded_before_error u vs"
  by (simp add: loaded_before_error_def)

lemma walk_fn_cases:
  "walk_fn u docs v =
     (if v_err v then Inl WalkFailed
      else case stored_entry u v of None \<Rightarrow> Inr docs | Some (k, d) \<Rightarrow> Inr (docs(k \<mapsto> d)))"
  by (simp add: walk_fn_def stored_entry_def split: option.split)

lemma map_add_single: "docs ++ ([k \<mapsto> d] ++ m) = docs(k \<mapsto> d) ++ m"
proof -
  have "docs ++ ([k \<mapsto> d] ++ m) = (docs ++ [k \<mapsto> d]) ++ m"
    by (rule map_add_assoc)
  also have "docs ++ [k \<mapsto> d] = docs(k \<mapsto> d)" by simp
  finally show ?thesis .
qed

lemma WalkDir_eq:
  "WalkDir u vs docs =
     (if \<exists>v\<in>set vs. v_err v then Some WalkFailed else None,
      docs ++ loaded_before_error u vs)"
proof (induction vs arbitrary: docs)
  case Nil
  show ?case by (simp add: loaded_before_error_Nil)
next
  case (Cons v vs)
  show ?case
  proof (cases "v_err v")
    case True
    then show ?thesis
      by (simp add: walk_fn_cases loaded_before_error_err)
  next
    case False
    show ?thesis
    proof (cases "stored_entry u v")
      case None
      with False show ?thesis
        by (simp add: walk_fn_cases Cons loaded_before_error_skip)
    next
      case (Some e)
      obtain k d where e: "e = (k, d)" by (cases e)
      from False Some e have w: "walk_fn u docs v = Inr (docs(k \<mapsto> d))"
        by (simp add: walk_fn_cases)
      from False Some e have l: "loaded_before_error u (v # vs) = [k \<mapsto> d] ++ loaded_before_error u vs"
        by (simp add: loaded_before_error_store)
      have "WalkDir u (v # vs) docs = WalkDir u vs (docs(k \<mapsto> d))"
        by (simp add: w)
      also have "\<dots> = (if \<exists>v\<in>set vs. v_err v then Some WalkFailed else None,
          docs(k \<mapsto> d) ++ loaded_before_error u vs)"
        by (rule Cons)
      finally show ?thesis
        using False by (simp only: l map_add_single list.set ball_simps bex_simps simp_thms)
    qed
  qed
qed

lemma LoadKnowledgeBase_eq:
  "LoadKnowledgeBase u s dir fs =
     (if \<not> mkdir_ok fs then (Some MkdirFailed, s\<lparr>knowledgeDir := dir\<rparr>)
      else (if \<exists>v\<in>set (walk fs). v_err v then Some WalkFailed else None,
            s\<lparr>knowledgeDir := dir, documents := loaded_before_error u (walk fs)\<rparr>))"
  by (simp add: LoadKnowledgeBase_def WalkDir_eq Let_def)

lemma ToLower_kb_b_MD: "ToLower u ''kb/b.MD'' = ''kb/b.md''"
  by (simp add: ToLower_def is_ascii_def lower_char_def is_upper_def char_of_eq_iff)

lemma HasSuffix_md: "HasSuffix (ToLower u ''kb/b.MD'') ''.md''"
  by (simp add: HasSuffix_def ToLower_kb_b_MD)

lemma loaded_failing_subdir: "loaded_before_error u (walk failing_subdir) = [''b'' \<mapsto> doc_dogs]"
  by (simp add: loaded_before_error_def failing_subdir_def stored_entry_def
      HasSuffix_md doc_dogs_def)


text \<open>
  C1, as the code has it. \<open>LoadKnowledgeBase\<close> clears the document map before the
  walk. When the walk returns an error the call returns an error, and the map then holds
  exactly the documents the walk stored before the error; what was there before the
  call is gone. \<open>GetDocument\<close> and \<open>GetAllDocuments\<close> read that map. When the
  directory cannot be created, the call returns an error and the map stays as it was.
\<close>

theorem LoadKnowledgeBase_walk_error:
  "(mkdir_ok fs \<and> (\<exists>v\<in>set (walk fs). v_err v) \<longrightarrow>
      fst (LoadKnowledgeBase u s dir fs) = Some WalkFailed
      \<and> fst (RefreshKnowledgeBase u s fs) = Some WalkFailed
      \<and> documents (snd (LoadKnowledgeBase u s dir fs)) = loaded_before_error u (walk fs)
      \<and> documents (snd (RefreshKnowledgeBase u s fs)) = loaded_before_error u (walk fs)
      \<and> (\<forall>k. GetDocument (snd (LoadKnowledgeBase u s dir fs)) k
             = (case loaded_before_error u (walk fs) k of
                  None \<Rightarrow> Inl (DocumentNotFound k) | Some d \<Rightarrow> Inr d))
      \<and> (\<forall>ks. GetAllDocuments (snd (LoadKnowledgeBase u s dir fs)) ks
             = range_values (loaded_before_error u (walk fs)) ks))
   \<and> (\<not> mkdir_ok fs \<longrightarrow>
      fst (LoadKnowledgeBase u s dir fs) = Some MkdirFailed
      \<and> documents (snd (LoadKnowledgeBase u s dir fs)) = documents s)"
  by (simp add: LoadKnowledgeBase_eq RefreshKnowledgeBase_def GetDocument_def GetAllDocuments_def)

theorem LoadKnowledgeBase_walk_error_witness:
  "mkdir_ok failing_subdir \<and> v_err (walk failing_subdir ! 2)
   \<and> fst (RefreshKnowledgeBase no_unicode service_cats failing_subdir) = Some WalkFailed
   \<and> documents (snd (RefreshKnowledgeBase no_unicode service_cats failing_subdir)) = [''b'' \<mapsto> doc_dogs]"
proof -
  have m: "mkdir_ok failing_subdir" by (simp add: failing_subdir_def)
  have e: "v_err (walk failing_subdir ! 2)" by (simp add: failing_subdir_def)
  then have "\<exists>v\<in>set (walk failing_subdir). v_err v"
    by (simp add: failing_subdir_def)
  with m LoadKnowledgeBase_walk_error [of failing_subdir no_unicode service_cats "''kb''"]
  have "fst (RefreshKnowledgeBase no_unicode service_cats failing_subdir) = Some WalkFailed
    \<and> documents (snd (RefreshKnowledgeBase no_unicode service_cats failing_subdir)) = loaded_before_error no_unicode (walk failing_subdir)"
    by blast
  with m e show ?thesis by (simp only: loaded_failing_subdir simp_thms)
qed


text \<open>
  C1, as stated, fails: a service that holds document \<open>a\<close> is refreshed while the root
  of its directory cannot be read (\<open>WalkDir\<close> calls the callback for the root, and again
  with the error of reading it). The call returns an error and the map is empty:
  \<open>GetDocument\<close> finds \<open>a\<close> before the call and not after it.
\<close>

theorem failed_refresh_loses_documents:
  "fst (RefreshKnowledgeBase no_unicode service_cats unreadable_root) = Some WalkFailed
   \<and> GetDocument service_cats ''a'' = Inr doc_cats
   \<and> GetDocument (snd (RefreshKnowledgeBase no_unicode service_cats unreadable_root)) ''a'' = Inl (DocumentNotFound ''a'')
   \<and> GetAllDocuments service_cats [''a''] = [doc_cats]
   \<and> GetAllDocuments (snd (RefreshKnowledgeBase no_unicode service_cats unreadable_root)) [] = []
   \<and> documents (snd (RefreshKnowledgeBase no_unicode service_cats unreadable_root)) = Map.empty"
  by (simp add: RefreshKnowledgeBase_def LoadKnowledgeBase_def service_cats_def unreadable_root_def
      walk_fn_def GetDocument_def GetAllDocuments_def range_values_def)

section \<open>Facts about the empty query\<close>

lemma tokenize_Nil: "tokenize u [] = []"
  by (simp add: tokenize_def ToLower_def Replace_def Fields_def)

lemma GetEmbedding_Nil:
  "GetEmbedding u s [] = Inr (replicate (length (vocabulary s)) 0)"
  by (simp add: GetEmbedding_def tokenize_Nil)

lemma cosine_loop_zero_left:
  "fst (snd (cosine_loop (replicate n 0) b (d, na, nb))) = na"
proof (induction n arbitrary: b d na nb)
  case 0
  show ?case by simp
next
  case (Suc n)
  show ?case
  proof (cases b)
    case Nil
    then show ?thesis by simp
  next
    case (Cons y ys)
    then show ?thesis using Suc [of ys d na "nb + y * y"] by simp
  qed
qed

lemma CosineSimilarity_zero_left: "CosineSimilarity (replicate n 0) b = 0"
proof (cases "n = length b")
  case False
  then show ?thesis by (simp add: CosineSimilarity_def)
next
  case True
  obtain d na nb where f: "cosine_loop (replicate (length b) 0) b (0, 0, 0) = (d, na, nb)"
    by (cases "cosine_loop (replicate (length b) 0) b (0, 0, 0)")
  with cosine_loop_zero_left [of "length b" b 0 0 0] have "na = 0" by simp
  with f show ?thesis unfolding True by (simp add: CosineSimilarity_def)
qed

lemma score_loop_zero_query:
  "score_loop v (replicate n 0) ks results = results"
  by (induction ks arbitrary: results)
     (simp_all add: CosineSimilarity_zero_left split: option.split)

lemma sort_by_score_Nil: "sort_by_score [] = []"
  by (simp add: sort_by_score_def)

lemma VectorSearch_empty_query:
  "VectorSearch u v [] limit ks = (if limit < 0 then Inl SliceBoundsOutOfRange else Inr [])"
  by (simp add: VectorSearch_def GetEmbedding_Nil score_loop_zero_query sort_by_score_Nil)


text \<open>
  C6. The empty query has no tokens; its embedding is the zero vector of the length of
  the vocabulary; the cosine similarity of that vector with any vector is 0; and
  \<open>VectorSearch\<close> with the empty query finds nothing, whatever the service holds: it
  returns the empty list (for a negative \<open>limit\<close> the slice expression panics, so
  there is no result list at all).
\<close>

theorem empty_query_no_results:
  "tokenize u '''' = []
   \<and> GetEmbedding u (embedding v) '''' = Inr (replicate (length (vocabulary (embedding v))) 0)
   \<and> CosineSimilarity (replicate (length (vocabulary (embedding v))) 0) docVector = 0
   \<and> VectorSearch u v '''' limit ks = (if limit < 0 then Inl SliceBoundsOutOfRange else Inr [])"
  by (simp only: tokenize_Nil GetEmbedding_Nil CosineSimilarity_zero_left VectorSearch_empty_query simp_thms)

lemma service_two_order: "map_order (documents service_two) [''b'', ''a'']"
  by (auto simp: map_order_def service_two_def)

lemma service_two_all: "GetAllDocuments service_two [''b'', ''a''] = [doc_dogs, doc_cats]"
  by (simp add: GetAllDocuments_def range_values_def service_two_def)


text \<open>
  C10. On the substring path the empty query matches every document: each document
  scores more than 0, and for a service with at least one document and a \<open>limit\<close> of at
  least 1 the search returns the first \<open>limit\<close> documents of the order of the call, at
  least one and at most \<open>limit\<close>. \<open>VectorSearch\<close> with the empty query returns none.
\<close>

theorem empty_query_matches_all:
  assumes o: "map_order (documents s) ks" and ne: "documents s \<noteq> Map.empty" and l: "1 \<le> limit"
  shows "(\<forall>d\<in>ran (documents s). 0 < doc_score u (ToLower u '''') d)
    \<and> SearchDocuments u s '''' limit ks = take (nat limit) (GetAllDocuments s ks)
    \<and> set (SearchDocuments u s '''' limit ks) \<subseteq> ran (documents s)
    \<and> 1 \<le> length (SearchDocuments u s '''' limit ks)
    \<and> int (length (SearchDocuments u s '''' limit ks)) \<le> limit
    \<and> length (SearchDocuments u s '''' limit ks) = min (nat limit) (card (dom (documents s)))
    \<and> (0 \<le> limit' \<longrightarrow> VectorSearch u v '''' limit' ks' = Inr [])"
proof -
  have pos: "0 < doc_score u (ToLower u '''') d" for d
    using doc_score_empty_query [of u d] by (simp add: ToLower_Nil)
  have "filter (\<lambda>d. 0 < doc_score u (ToLower u '''') d) (range_values (documents s) ks)
      = range_values (documents s) ks"
    using pos by simp
  with l have eq: "SearchDocuments u s '''' limit ks = take (nat limit) (GetAllDocuments s ks)"
    by (simp add: SearchDocuments_eq GetAllDocuments_def max_def)
  have len: "length (GetAllDocuments s ks) = card (dom (documents s))"
    using o by (simp add: GetAllDocuments_def length_range_values)
  have "finite (dom (documents s))"
    using o by (metis map_order_def List.finite_set)
  with ne have c: "1 \<le> card (dom (documents s))"
    by (simp add: Suc_le_eq card_gt_0_iff)
  have sub: "set (SearchDocuments u s '''' limit ks) \<subseteq> ran (documents s)"
    using set_take_subset [of "nat limit" "GetAllDocuments s ks"] set_range_values [OF o]
    by (simp add: eq GetAllDocuments_def)
  have n: "length (SearchDocuments u s '''' limit ks) = min (nat limit) (card (dom (documents s)))"
    by (simp add: eq len min.commute)
  from l c n have n1: "1 \<le> length (SearchDocuments u s '''' limit ks)" by simp
  from l n have n2: "int (length (SearchDocuments u s '''' limit ks)) \<le> limit" by simp
  have vs: "0 \<le> limit' \<longrightarrow> VectorSearch u v '''' limit' ks' = Inr []"
    by (simp add: VectorSearch_empty_query)
  from pos eq sub n n1 n2 vs show ?thesis by blast
qed

theorem empty_query_matches_all_witness:
  "map_order (documents service_two) [''b'', ''a''] \<and> documents service_two \<noteq> Map.empty
   \<and> SearchDocuments no_unicode service_two '''' 1 [''b'', ''a''] = [doc_dogs]
   \<and> VectorSearch no_unicode NewVectorKnowledgeService '''' 1 [] = Inr []"
proof -
  have ne: "documents service_two \<noteq> Map.empty"
    by (simp add: service_two_def)
  have l: "(1::int) \<le> 1" by simp
  from empty_query_matches_all [OF service_two_order ne l, of no_unicode 1 NewVectorKnowledgeService "[]"]
  have "SearchDocuments no_unicode service_two '''' 1 [''b'', ''a''] = take (nat 1) (GetAllDocuments service_two [''b'', ''a''])"
    and "VectorSearch no_unicode NewVectorKnowledgeService '''' 1 [] = Inr []"
    by simp_all
  with service_two_order ne show ?thesis by (simp add: service_two_all)
qed

section \<open>Facts about the embedding service\<close>

lemma map_of_incr:
  "map_of (incr k m) = (map_of m)(k \<mapsto> (case map_of m k of None \<Rightarrow> 1 | Some n \<Rightarrow> n + 1))"
  by (induction m) (auto simp: fun_eq_iff)

lemma counter_incr: "counter (incr k m) t = counter m t + (if t = k then 1 else 0)"
  by (simp add: counter_def map_of_incr split: option.split)

lemma keys_incr: "fst ` set (incr k m) = insert k (fst ` set m)"
proof -
  have "dom (map_of (incr k m)) = insert k (dom (map_of m))"
    by (simp add: map_of_incr)
  then show ?thesis by (simp add: dom_map_of_conv_image_fst)
qed

lemma distinct_incr: "distinct (map fst m) \<Longrightarrow> distinct (map fst (incr k m))"
proof (induction m)
  case Nil
  show ?case by simp
next
  case (Cons p m)
  obtain k' n where p: "p = (k', n)" by (cases p)
  show ?case
  proof (cases "k = k'")
    case True
    with Cons(2) p show ?thesis by simp
  next
    case False
    from Cons have d: "distinct (map fst (incr k m))" by simp
    from Cons(2) p have "k' \<notin> fst ` set m" by simp
    with False have "k' \<notin> fst ` set (incr k m)" by (simp add: keys_incr)
    with d p False show ?thesis by simp
  qed
qed

lemma positive_incr: "positive_counts m \<Longrightarrow> positive_counts (incr k m)"
proof (induction m)
  case Nil
  show ?case by (simp add: positive_counts_def)
next
  case (Cons p m)
  obtain k' n where p: "p = (k', n)" by (cases p)
  from Cons(2) p have n: "n \<noteq> 0" and m: "positive_counts m"
    by (auto simp: positive_counts_def)
  from Cons(1) [OF m] have "0 \<notin> snd ` set (incr k m)" by (simp add: positive_counts_def)
  with n m p show ?case by (cases "k = k'") (auto simp: positive_counts_def)
qed

lemma map_of_counter:
  "positive_counts m \<Longrightarrow> map_of m t = (if counter m t = 0 then None else Some (counter m t))"
proof -
  assume p: "positive_counts m"
  show ?thesis
  proof (cases "map_of m t")
    case None
    then show ?thesis by (simp add: counter_def)
  next
    case (Some n)
    then have "(t, n) \<in> set m" by (rule map_of_SomeD)
    then have "n \<in> snd ` set m" by force
    with p have "n \<noteq> 0" unfolding positive_counts_def by metis
    with Some show ?thesis by (simp add: counter_def)
  qed
qed

lemma tf_loop_props:
  "counter (tf_loop tokens tf) t = counter tf t + count_list tokens t
   \<and> (positive_counts tf \<longrightarrow> positive_counts (tf_loop tokens tf))
   \<and> (distinct (map fst tf) \<longrightarrow> distinct (map fst (tf_loop tokens tf)))"
proof (induction tokens arbitrary: tf)
  case Nil
  show ?case by simp
next
  case (Cons token tokens)
  from Cons [of "incr token tf"] show ?case
    by (simp add: counter_incr positive_incr distinct_incr)
qed

lemma map_of_tf_loop:
  "map_of (tf_loop tokens []) t =
     (if t \<in> set tokens then Some (count_list tokens t) else None)"
proof -
  have p: "positive_counts (tf_loop tokens [])"
    using tf_loop_props [of tokens "[]" t] by (simp add: positive_counts_def)
  have c: "counter (tf_loop tokens []) t = count_list tokens t"
    using tf_loop_props [of tokens "[]" t] by (simp add: counter_def)
  show ?thesis
    by (simp add: map_of_counter [OF p] c count_list_0_iff)
qed

lemma distinct_tf_loop: "distinct (map fst (tf_loop tokens []))"
  using tf_loop_props [of tokens "[]"] by simp

lemma dense_index:
  assumes d: "dense_vocabulary vocab" and i: "i < length vocab"
  shows "map_of vocab (fst (vocab ! i)) = Some i"
proof -
  from d have s: "map snd vocab = [0..<length vocab]" and k: "distinct (map fst vocab)"
    by (simp_all add: dense_vocabulary_def)
  from i have "snd (vocab ! i) = map snd vocab ! i" by simp
  also from i have "\<dots> = i" by (simp add: s)
  finally have "vocab ! i = (fst (vocab ! i), i)" by (simp add: prod_eq_iff)
  with i have "(fst (vocab ! i), i) \<in> set vocab" by (metis nth_mem)
  with k show ?thesis by simp
qed

lemma dense_lookup:
  assumes d: "dense_vocabulary vocab" and m: "map_of vocab t = Some i"
  shows "i < length vocab \<and> fst (vocab ! i) = t"
proof -
  from d have s: "map snd vocab = [0..<length vocab]" and k: "distinct (map fst vocab)"
    by (simp_all add: dense_vocabulary_def)
  from m have "(t, i) \<in> set vocab" by (rule map_of_SomeD)
  then obtain j where j: "j < length vocab" and e: "vocab ! j = (t, i)"
    by (auto simp: in_set_conv_nth)
  from j have "snd (vocab ! j) = map snd vocab ! j" by simp
  also from j have "\<dots> = j" by (simp add: s)
  finally have "i = j" using e by simp
  with j e show ?thesis by simp
qed

lemma tfidf_loop_result:
  assumes d: "dense_vocabulary (vocabulary s)" and l: "length vector = length (vocabulary s)"
    and k: "distinct (map fst tf)"
  shows "\<exists>r. tfidf_loop s n tf vector = Inr r \<and> length r = length vector
     \<and> (\<forall>i<length vector. r ! i =
          (case map_of tf (fst (vocabulary s ! i)) of
             None \<Rightarrow> vector ! i
           | Some f \<Rightarrow> real f / real n * idf_value s (fst (vocabulary s ! i))))"
  using l k
proof (induction tf arbitrary: vector)
  case Nil
  show ?case by simp
next
  case (Cons p tf)
  obtain token freq where p: "p = (token, freq)" by (cases p)
  from Cons(3) p have k': "distinct (map fst tf)" and fresh: "map_of tf token = None"
    by (simp_all add: map_of_eq_None_iff)
  show ?case
  proof (cases "map_of (vocabulary s) token")
    case None
    from Cons(1) [OF Cons(2) k'] obtain r where
      r: "tfidf_loop s n tf vector = Inr r" "length r = length vector"
      "\<forall>i<length vector. r ! i =
          (case map_of tf (fst (vocabulary s ! i)) of
             None \<Rightarrow> vector ! i
           | Some f \<Rightarrow> real f / real n * idf_value s (fst (vocabulary s ! i)))"
      by blast
    have "fst (vocabulary s ! i) \<noteq> token" if "i < length vector" for i
      using dense_index [OF d, of i] that Cons(2) None by auto
    with r p None show ?thesis by simp
  next
    case (Some idx)
    from dense_lookup [OF d Some] have idx: "idx < length (vocabulary s)"
      and tok: "fst (vocabulary s ! idx) = token" by simp_all
    let ?x = "real freq / real n * idf_value s token"
    let ?v = "vector[idx := ?x]"
    have lv: "length ?v = length (vocabulary s)" using Cons(2) by simp
    from Cons(1) [OF lv k'] obtain r where
      r: "tfidf_loop s n tf ?v = Inr r" "length r = length ?v"
      "\<forall>i<length ?v. r ! i =
          (case map_of tf (fst (vocabulary s ! i)) of
             None \<Rightarrow> ?v ! i
           | Some f \<Rightarrow> real f / real n * idf_value s (fst (vocabulary s ! i)))"
      by blast
    from Some idx Cons(2) p r(1) have run: "tfidf_loop s n (p # tf) vector = Inr r"
      by (simp add: Let_def)
    have "r ! i = (case map_of (p # tf) (fst (vocabulary s ! i)) of
             None \<Rightarrow> vector ! i
           | Some f \<Rightarrow> real f / real n * idf_value s (fst (vocabulary s ! i)))"
      if i: "i < length vector" for i
    proof (cases "i = idx")
      case True
      with r(3) i tok fresh idx Cons(2) p show ?thesis by simp
    next
      case False
      have "fst (vocabulary s ! i) \<noteq> token"
      proof
        assume "fst (vocabulary s ! i) = token"
        with dense_index [OF d, of i] i Cons(2) Some have "i = idx" by simp
        with False show False by simp
      qed
      with r(3) i False p show ?thesis by (simp split: option.split)
    qed
    with run r(2) show ?thesis by simp
  qed
qed

lemma dense_snoc:
  assumes d: "dense_vocabulary vocab" and n: "map_of vocab token = None"
  shows "dense_vocabulary (vocab @ [(token, length vocab)])"
proof -
  from n have "token \<notin> fst ` set vocab" by (simp add: map_of_eq_None_iff)
  with d show ?thesis by (simp add: dense_vocabulary_def)
qed

lemma token_loop_props:
  assumes "dense_vocabulary vocab"
  shows "\<exists>vocab' df' seen'.
      token_loop tokens (vocab, length vocab, df, seen) = (vocab', length vocab', df', seen')
      \<and> dense_vocabulary vocab'
      \<and> fst ` set vocab' = fst ` set vocab \<union> set tokens
      \<and> (\<forall>t. counter df' t = counter df t + (if t \<in> set tokens \<and> t \<notin> set seen then 1 else 0))
      \<and> (positive_counts df \<longrightarrow> positive_counts df')"
  using assms
proof (induction tokens arbitrary: vocab df seen)
  case Nil
  then show ?case by simp
next
  case (Cons token tokens)
  define vocab1 where "vocab1 = (if map_of vocab token = None then vocab @ [(token, length vocab)] else vocab)"
  define df1 where "df1 = (if token \<notin> set seen then incr token df else df)"
  define seen1 where "seen1 = (if token \<notin> set seen then token # seen else seen)"
  have d1: "dense_vocabulary vocab1"
    using Cons(2) dense_snoc [of vocab token] by (simp add: vocab1_def)
  have k1: "fst ` set vocab1 = insert token (fst ` set vocab)"
  proof (cases "map_of vocab token")
    case None
    then show ?thesis by (simp add: vocab1_def)
  next
    case (Some i)
    then have "(token, i) \<in> set vocab" by (rule map_of_SomeD)
    then have "token \<in> fst ` set vocab" by force
    with Some show ?thesis by (auto simp: vocab1_def)
  qed
  have c1: "counter df1 t = counter df t + (if t = token \<and> token \<notin> set seen then 1 else 0)" for t
    by (simp add: df1_def counter_incr)
  have p1: "positive_counts df \<longrightarrow> positive_counts df1"
    by (simp add: df1_def positive_incr)
  have s1: "set seen1 = insert token (set seen)"
    by (auto simp: seen1_def)
  have step: "token_loop (token # tokens) (vocab, length vocab, df, seen)
      = token_loop tokens (vocab1, length vocab1, df1, seen1)"
    by (simp add: vocab1_def df1_def seen1_def)
  from Cons(1) [OF d1, of df1 seen1] obtain vocab' df' seen' where
    r: "token_loop tokens (vocab1, length vocab1, df1, seen1) = (vocab', length vocab', df', seen')"
      "dense_vocabulary vocab'"
      "fst ` set vocab' = fst ` set vocab1 \<union> set tokens"
      "\<forall>t. counter df' t = counter df1 t + (if t \<in> set tokens \<and> t \<notin> set seen1 then 1 else 0)"
      "positive_counts df1 \<longrightarrow> positive_counts df'"
    by blast
  have k: "fst ` set vocab' = fst ` set vocab \<union> set (token # tokens)"
    using r(3) k1 by auto
  have c: "counter df' t = counter df t + (if t \<in> set (token # tokens) \<and> t \<notin> set seen then 1 else 0)" for t
    using r(4) c1 [of t] s1 by auto
  from step r(1,2) k c p1 r(5) show ?case by auto
qed

lemma doc_loop_props:
  assumes "dense_vocabulary vocab"
  shows "\<exists>vocab' df'.
      doc_loop u docs (vocab, length vocab, df) = (vocab', length vocab', df')
      \<and> dense_vocabulary vocab'
      \<and> fst ` set vocab' = fst ` set vocab \<union> (\<Union>doc\<in>set docs. set (tokenize u (Content doc)))
      \<and> (\<forall>t. counter df' t = counter df t + document_frequency u docs t)
      \<and> (positive_counts df \<longrightarrow> positive_counts df')"
  using assms
proof (induction docs arbitrary: vocab df)
  case Nil
  then show ?case by (simp add: document_frequency_def)
next
  case (Cons doc docs)
  from token_loop_props [OF Cons(2), of "tokenize u (Content doc)" df "[]"]
  obtain vocab1 df1 seen1 where
    t: "token_loop (tokenize u (Content doc)) (vocab, length vocab, df, []) = (vocab1, length vocab1, df1, seen1)"
      "dense_vocabulary vocab1"
      "fst ` set vocab1 = fst ` set vocab \<union> set (tokenize u (Content doc))"
      "\<forall>t. counter df1 t = counter df t + (if t \<in> set (tokenize u (Content doc)) \<and> t \<notin> set [] then 1 else 0)"
      "positive_counts df \<longrightarrow> positive_counts df1"
    by blast
  from Cons(1) [OF t(2), of df1] obtain vocab' df' where
    r: "doc_loop u docs (vocab1, length vocab1, df1) = (vocab', length vocab', df')"
      "dense_vocabulary vocab'"
      "fst ` set vocab' = fst ` set vocab1 \<union> (\<Union>doc\<in>set docs. set (tokenize u (Content doc)))"
      "\<forall>t. counter df' t = counter df1 t + document_frequency u docs t"
      "positive_counts df1 \<longrightarrow> positive_counts df'"
    by blast
  have step: "doc_loop u (doc # docs) (vocab, length vocab, df) = (vocab', length vocab', df')"
    using t(1) r(1) by (simp add: Let_def)
  have k: "fst ` set vocab' = fst ` set vocab \<union> (\<Union>doc\<in>set (doc # docs). set (tokenize u (Content doc)))"
    using r(3) t(3) by auto
  have c: "counter df' t = counter df t + document_frequency u (doc # docs) t" for t
    using r(4) t(4) by (simp add: document_frequency_def)
  from step r(2) k c t(5) r(5) show ?case by auto
qed

lemma dense_Nil: "dense_vocabulary []"
  by (simp add: dense_vocabulary_def)

lemma positive_Nil: "positive_counts []"
  by (simp add: positive_counts_def)

lemma counter_Nil: "counter [] t = 0"
  by (simp add: counter_def)

lemma map_of_map_values:
  "map_of (map (\<lambda>(k, v). (k, f v)) m) t = map_option f (map_of m t)"
  by (induction m) auto

lemma BuildVocabulary_props:
  "\<exists>df. BuildVocabulary u docs =
       \<lparr>vocabulary = vocabulary (BuildVocabulary u docs),
        idf = map (\<lambda>(token, freq). (token, ln (real (length docs) / real freq))) df\<rparr>
     \<and> dense_vocabulary (vocabulary (BuildVocabulary u docs))
     \<and> fst ` set (vocabulary (BuildVocabulary u docs)) = (\<Union>doc\<in>set docs. set (tokenize u (Content doc)))
     \<and> (\<forall>t. map_of df t = (if document_frequency u docs t = 0 then None else Some (document_frequency u docs t)))"
proof -
  from doc_loop_props [OF dense_Nil, of u docs "[]"] obtain vocab' df' where
    r: "doc_loop u docs ([], 0, []) = (vocab', length vocab', df')"
      "dense_vocabulary vocab'"
      "fst ` set vocab' = (\<Union>doc\<in>set docs. set (tokenize u (Content doc)))"
      "\<forall>t. counter df' t = document_frequency u docs t"
      "positive_counts df'"
    by (auto simp: positive_Nil counter_Nil)
  from r(1) have b: "BuildVocabulary u docs =
      \<lparr>vocabulary = vocab', idf = map (\<lambda>(token, freq). (token, ln (real (length docs) / real freq))) df'\<rparr>"
    by (simp add: BuildVocabulary_def Let_def)
  have m: "map_of df' t = (if document_frequency u docs t = 0 then None else Some (document_frequency u docs t))" for t
    using map_of_counter [OF r(5), of t] r(4) by simp
  from b r(2,3) m show ?thesis by auto
qed

lemma BuildVocabulary_dense: "dense_vocabulary (vocabulary (BuildVocabulary u docs))"
  using BuildVocabulary_props [of u docs] by blast

lemma document_frequency_pos:
  "0 < document_frequency u docs t \<longleftrightarrow> t \<in> (\<Union>doc\<in>set docs. set (tokenize u (Content doc)))"
  by (auto simp: document_frequency_def filter_empty_conv)

lemma GetEmbedding_total:
  assumes d: "dense_vocabulary (vocabulary s)"
  shows "\<exists>vector. GetEmbedding u s t = Inr vector \<and> length vector = length (vocabulary s)"
proof -
  have l: "length (replicate (length (vocabulary s)) (0::real)) = length (vocabulary s)" by simp
  from tfidf_loop_result [OF d l distinct_tf_loop, of "length (tokenize u t)" "tokenize u t"]
  show ?thesis by (auto simp: GetEmbedding_def Let_def)
qed

subsection \<open>Evaluation of the example corpus\<close>

lemma tokenize_cats_are_great: "tokenize u ''cats are great'' = [''cats'', ''are'', ''great'']"
  by (simp add: string_eval)

lemma tokenize_dogs_are_great: "tokenize u ''dogs are great'' = [''dogs'', ''are'', ''great'']"
  by (simp add: string_eval)

lemma tokenize_birds_are_great: "tokenize u ''birds are great'' = [''birds'', ''are'', ''great'']"
  by (simp add: string_eval)

lemma tokenize_cats: "tokenize u ''cats'' = [''cats'']"
  by (simp add: string_eval)

lemma tokenize_birds: "tokenize u ''birds'' = [''birds'']"
  by (simp add: string_eval)

lemma BuildVocabulary_two: "BuildVocabulary u [doc_cats, doc_dogs] = embedding_two"
  by (simp add: BuildVocabulary_def doc_cats_def doc_dogs_def tokenize_cats_are_great
      tokenize_dogs_are_great embedding_two_def)

lemma GetEmbedding_cats_are_great:
  "GetEmbedding u embedding_two ''cats are great'' = Inr [ln 2 / 3, 0, 0, 0]"
  by (simp add: GetEmbedding_def tokenize_cats_are_great embedding_two_def idf_value_def)

lemma GetEmbedding_dogs_are_great:
  "GetEmbedding u embedding_two ''dogs are great'' = Inr [0, 0, 0, ln 2 / 3]"
  by (simp add: GetEmbedding_def tokenize_dogs_are_great embedding_two_def idf_value_def)

lemma GetEmbedding_cats: "GetEmbedding u embedding_two ''cats'' = Inr [ln 2, 0, 0, 0]"
  by (simp add: GetEmbedding_def tokenize_cats embedding_two_def idf_value_def)

lemma GetEmbedding_birds: "GetEmbedding u embedding_two ''birds'' = Inr [0, 0, 0, 0]"
  by (simp add: GetEmbedding_def tokenize_birds embedding_two_def idf_value_def)

lemma HasSuffix_a_md: "HasSuffix (ToLower u ''kb/a.md'') ''.md''"
  by (simp add: HasSuffix_def ToLower_def is_ascii_def lower_char_def is_upper_def)

lemma HasSuffix_b_md: "HasSuffix (ToLower u ''kb/b.md'') ''.md''"
  by (simp add: HasSuffix_def ToLower_def is_ascii_def lower_char_def is_upper_def)

lemma Load_two_files:
  "LoadKnowledgeBase u s ''kb'' two_files =
     (None, \<lparr>documents = [''a'' \<mapsto> doc_cats, ''b'' \<mapsto> doc_dogs], knowledgeDir = ''kb''\<rparr>)"
  by (simp add: LoadKnowledgeBase_def two_files_def walk_fn_def HasSuffix_a_md HasSuffix_b_md
      doc_cats_def doc_dogs_def)

lemma Load_two_files_changed:
  "LoadKnowledgeBase u s ''kb'' two_files_changed =
     (None, \<lparr>documents = [''a'' \<mapsto> doc_birds, ''b'' \<mapsto> doc_dogs], knowledgeDir = ''kb''\<rparr>)"
  by (simp add: LoadKnowledgeBase_def two_files_changed_def walk_fn_def HasSuffix_a_md HasSuffix_b_md
      doc_birds_def doc_dogs_def)

lemma GetAll_two:
  "GetAllDocuments \<lparr>documents = [''a'' \<mapsto> doc_cats, ''b'' \<mapsto> doc_dogs], knowledgeDir = ''kb''\<rparr> [''a'', ''b'']
     = [doc_cats, doc_dogs]"
  by (simp add: GetAllDocuments_def range_values_def)

lemma vector_loop_two:
  "vector_loop u embedding_two [doc_cats, doc_dogs] Map.empty
     = Inr [''a'' \<mapsto> [ln 2 / 3, 0, 0, 0], ''b'' \<mapsto> [0, 0, 0, ln 2 / 3]]"
proof -
  have a: "Content doc_cats = ''cats are great''" "ID doc_cats = ''a''" by (simp_all add: doc_cats_def)
  have b: "Content doc_dogs = ''dogs are great''" "ID doc_dogs = ''b''" by (simp_all add: doc_dogs_def)
  show ?thesis
    by (simp add: a b GetEmbedding_cats_are_great GetEmbedding_dogs_are_great)
qed

lemma Vector_Load_two_files:
  "Vector_LoadKnowledgeBase u NewVectorKnowledgeService ''kb'' two_files [''a'', ''b''] = (None, index_two)"
  by (simp add: Vector_LoadKnowledgeBase_def Load_two_files GetAll_two BuildVocabulary_two
      vector_loop_two index_two_def NewVectorKnowledgeService_def Let_def del: vector_loop.simps)

lemma cosine_same_axis:
  assumes "0 < x"
  shows "CosineSimilarity [x, 0, 0, 0] [x / 3, 0, 0, 0] = 1"
proof -
  have "sqrt (x * x) = x" using assms by simp
  moreover have "sqrt (x * x / 9) = x / 3" using assms by (simp add: real_sqrt_divide)
  ultimately show ?thesis using assms by (simp add: CosineSimilarity_def)
qed

lemma cosine_other_axis: "CosineSimilarity [x, 0, 0, 0] [0, 0, 0, y] = 0"
  by (simp add: CosineSimilarity_def)

lemma ln2_pos: "0 < ln (2::real)"
  by simp


lemma list_of_four:
  "length xs = 4 \<Longrightarrow> xs = [xs ! 0, xs ! 1, xs ! 2, xs ! 3]"
  by (rule nth_equalityI) (auto simp: nth_Cons' numeral_eq_Suc less_Suc_eq)

lemma dense_embedding_two: "dense_vocabulary (vocabulary embedding_two)"
  using BuildVocabulary_dense [of u "[doc_cats, doc_dogs]"] by (simp add: BuildVocabulary_two)

text \<open>
  C8. \<open>BuildVocabulary\<close> counts a token once for each document whose token list
  contains it, however often it occurs there: the IDF table has an entry for exactly
  the tokens of document frequency at least 1, and the entry is
  \<open>ln (totalDocs / documentFrequency)\<close>. The keys of the vocabulary are the same tokens,
  with dense indices. For no documents both maps are empty.
\<close>

theorem BuildVocabulary_idf:
  "map_of (idf (BuildVocabulary u docs)) token =
     (if 1 \<le> document_frequency u docs token
      then Some (ln (real (length docs) / real (document_frequency u docs token)))
      else None)
   \<and> fst ` set (vocabulary (BuildVocabulary u docs)) = {t. 1 \<le> document_frequency u docs t}
   \<and> dense_vocabulary (vocabulary (BuildVocabulary u docs))
   \<and> BuildVocabulary u [] = \<lparr>vocabulary = [], idf = []\<rparr>"
proof -
  from BuildVocabulary_props [of u docs] obtain df where
    b: "BuildVocabulary u docs =
       \<lparr>vocabulary = vocabulary (BuildVocabulary u docs),
        idf = map (\<lambda>(token, freq). (token, ln (real (length docs) / real freq))) df\<rparr>"
    and d: "dense_vocabulary (vocabulary (BuildVocabulary u docs))"
    and k: "fst ` set (vocabulary (BuildVocabulary u docs)) = (\<Union>doc\<in>set docs. set (tokenize u (Content doc)))"
    and m: "\<forall>t. map_of df t = (if document_frequency u docs t = 0 then None else Some (document_frequency u docs t))"
    by blast
  from b have "idf (BuildVocabulary u docs) = map (\<lambda>(token, freq). (token, ln (real (length docs) / real freq))) df"
    by (metis SimpleEmbeddingService.select_convs(2))
  then have i: "map_of (idf (BuildVocabulary u docs)) token =
     (if 1 \<le> document_frequency u docs token
      then Some (ln (real (length docs) / real (document_frequency u docs token)))
      else None)"
    using m by (simp add: map_of_map_values)
  have k': "fst ` set (vocabulary (BuildVocabulary u docs)) = {t. 1 \<le> document_frequency u docs t}"
    using k document_frequency_pos [of u docs] by (auto simp: Suc_le_eq)
  have e: "BuildVocabulary u [] = \<lparr>vocabulary = [], idf = []\<rparr>"
    by (simp add: BuildVocabulary_def)
  from i k' d e show ?thesis by blast
qed

text \<open>
  C7. For a dense vocabulary (every vocabulary \<open>BuildVocabulary\<close> makes is dense, lemma
  \<open>BuildVocabulary_dense\<close>) \<open>GetEmbedding\<close> returns a vector as long as the vocabulary.
  The entry at the index of a token of the text is its number of occurrences divided by
  the number of tokens, times its IDF value; every other entry is 0. Tokens outside the
  vocabulary change nothing, and the vector does not grow.
\<close>

theorem GetEmbedding_tfidf:
  assumes d: "dense_vocabulary (vocabulary s)"
  shows "\<exists>vector. GetEmbedding u s t = Inr vector
     \<and> length vector = length (vocabulary s)
     \<and> (\<forall>i<length (vocabulary s). vector ! i =
          (if fst (vocabulary s ! i) \<in> set (tokenize u t)
           then real (count_list (tokenize u t) (fst (vocabulary s ! i))) / real (length (tokenize u t))
                  * idf_value s (fst (vocabulary s ! i))
           else 0))
     \<and> (\<forall>token idx. map_of (vocabulary s) token = Some idx \<longrightarrow> vector ! idx =
          (if token \<in> set (tokenize u t)
           then real (count_list (tokenize u t) token) / real (length (tokenize u t)) * idf_value s token
           else 0))"
proof -
  let ?tokens = "tokenize u t"
  let ?zero = "replicate (length (vocabulary s)) (0::real)"
  have l: "length ?zero = length (vocabulary s)" by simp
  from tfidf_loop_result [OF d l distinct_tf_loop, of "length ?tokens" ?tokens]
  obtain r where r: "tfidf_loop s (length ?tokens) (tf_loop ?tokens []) ?zero = Inr r"
    "length r = length (vocabulary s)"
    "\<forall>i<length (vocabulary s). r ! i =
          (case map_of (tf_loop ?tokens []) (fst (vocabulary s ! i)) of
             None \<Rightarrow> ?zero ! i
           | Some f \<Rightarrow> real f / real (length ?tokens) * idf_value s (fst (vocabulary s ! i)))"
    by auto
  from r(1) have g: "GetEmbedding u s t = Inr r" by (simp add: GetEmbedding_def Let_def)
  have e: "r ! i = (if fst (vocabulary s ! i) \<in> set ?tokens
           then real (count_list ?tokens (fst (vocabulary s ! i))) / real (length ?tokens)
                  * idf_value s (fst (vocabulary s ! i))
           else 0)" if "i < length (vocabulary s)" for i
    using r(3) that by (simp add: map_of_tf_loop)
  have "r ! idx = (if token \<in> set ?tokens
           then real (count_list ?tokens token) / real (length ?tokens) * idf_value s token
           else 0)" if "map_of (vocabulary s) token = Some idx" for token idx
    using e [of idx] dense_lookup [OF d that] by simp
  with g r(2) e show ?thesis by blast
qed

theorem GetEmbedding_tfidf_witness:
  "dense_vocabulary (vocabulary embedding_two)
   \<and> GetEmbedding no_unicode embedding_two ''cats are great'' = Inr [ln 2 / 3, 0, 0, 0]"
proof -
  from GetEmbedding_tfidf [OF dense_embedding_two, of no_unicode "''cats are great''"]
  obtain vector where g: "GetEmbedding no_unicode embedding_two ''cats are great'' = Inr vector"
    and len: "length vector = length (vocabulary embedding_two)"
    and e: "\<And>i. i < length (vocabulary embedding_two) \<Longrightarrow> vector ! i =
          (if fst (vocabulary embedding_two ! i) \<in> set (tokenize no_unicode ''cats are great'')
           then real (count_list (tokenize no_unicode ''cats are great'') (fst (vocabulary embedding_two ! i)))
                  / real (length (tokenize no_unicode ''cats are great''))
                  * idf_value embedding_two (fst (vocabulary embedding_two ! i))
           else 0)"
    by blast
  have v: "vocabulary embedding_two = [(''cats'', 0), (''are'', 1), (''great'', 2), (''dogs'', 3)]"
    and i: "idf embedding_two = [(''cats'', ln 2), (''are'', 0), (''great'', 0), (''dogs'', ln 2)]"
    by (simp_all add: embedding_two_def)
  have l4: "length vector = 4" using len by (simp add: v)
  have e0: "vector ! 0 = ln 2 / 3" using e [of 0] by (simp add: v i tokenize_cats_are_great idf_value_def)
  have e1: "vector ! 1 = 0" using e [of 1] by (simp add: v i tokenize_cats_are_great idf_value_def)
  have e2: "vector ! 2 = 0" using e [of 2] by (simp add: v i tokenize_cats_are_great idf_value_def)
  have e3: "vector ! 3 = 0" using e [of 3] by (simp add: v i tokenize_cats_are_great idf_value_def)
  have "vector = [vector ! 0, vector ! 1, vector ! 2, vector ! 3]" by (rule list_of_four [OF l4])
  then have "vector = [ln 2 / 3, 0, 0, 0]" by (simp only: e0 e1 e2 e3)
  with g dense_embedding_two show ?thesis by simp
qed

section \<open>Facts about vector search\<close>






lemma sorted_wrt_take: "sorted_wrt P xs \<Longrightarrow> sorted_wrt P (take n xs)"
  by (metis append_take_drop_id sorted_wrt_append)





section \<open>Facts about the generations of the vector service\<close>

lemma loaded_before_error_ID:
  "loaded_before_error u vs k = Some d \<Longrightarrow> ID d = k"
proof -
  assume "loaded_before_error u vs k = Some d"
  then have "(k, d) \<in> set (List.map_filter (stored_entry u) (takeWhile (\<lambda>v. \<not> v_err v) vs))"
    unfolding loaded_before_error_def using map_of_SomeD by fastforce
  then obtain v where "stored_entry u v = Some (k, d)"
    by (auto simp: List.map_filter_def)
  then show ?thesis
    by (auto simp: stored_entry_def split: if_splits)
qed

lemma Load_success_ID:
  assumes "LoadKnowledgeBase u s dir fs = (None, b)" and "documents b k = Some d"
  shows "ID d = k"
proof -
  from assms(1) have "documents b = loaded_before_error u (walk fs)"
    by (auto simp: LoadKnowledgeBase_eq split: if_splits)
  with assms(2) show ?thesis by (simp add: loaded_before_error_ID)
qed

lemma vector_loop_result:
  assumes d: "dense_vocabulary (vocabulary e)"
  shows "\<exists>dv'. vector_loop u e docs dv = Inr dv'
     \<and> dom dv' = dom dv \<union> ID ` set docs
     \<and> (\<forall>doc\<in>set docs. distinct (map ID docs) \<longrightarrow>
           GetEmbedding u e (Content doc) = Inr (the (dv' (ID doc))))
     \<and> (\<forall>k. k \<notin> ID ` set docs \<longrightarrow> dv' k = dv k)"
proof (induction docs arbitrary: dv)
  case Nil
  show ?case by simp
next
  case (Cons doc docs)
  from GetEmbedding_total [OF d, of u "Content doc"] obtain vec where
    g: "GetEmbedding u e (Content doc) = Inr vec" by blast
  from Cons [of "dv(ID doc \<mapsto> vec)"] obtain dv' where
    r: "vector_loop u e docs (dv(ID doc \<mapsto> vec)) = Inr dv'"
    "dom dv' = dom (dv(ID doc \<mapsto> vec)) \<union> ID ` set docs"
    "\<forall>doc\<in>set docs. distinct (map ID docs) \<longrightarrow>
           GetEmbedding u e (Content doc) = Inr (the (dv' (ID doc)))"
    "\<forall>k. k \<notin> ID ` set docs \<longrightarrow> dv' k = (dv(ID doc \<mapsto> vec)) k"
    by blast
  from g r(1) have run: "vector_loop u e (doc # docs) dv = Inr dv'" by simp
  from r(2) have dm: "dom dv' = dom dv \<union> ID ` set (doc # docs)" by auto
  have e: "GetEmbedding u e (Content x) = Inr (the (dv' (ID x)))"
    if x: "x \<in> set (doc # docs)" and di: "distinct (map ID (doc # docs))" for x
  proof (cases "x \<in> set docs")
    case True
    with r(3) di show ?thesis by simp
  next
    case False
    with x have xd: "x = doc" by simp
    from di have "ID doc \<notin> ID ` set docs" by simp
    with r(4) have "dv' (ID doc) = Some vec" by simp
    with g xd show ?thesis by simp
  qed
  have k: "\<forall>k. k \<notin> ID ` set (doc # docs) \<longrightarrow> dv' k = dv k"
    using r(4) by simp
  from run dm e k show ?case by blast
qed

lemma GetAllDocuments_IDs:
  assumes o: "map_order (documents b) ks" and i: "\<forall>k d. documents b k = Some d \<longrightarrow> ID d = k"
  shows "map ID (GetAllDocuments b ks) = ks"
proof -
  from o have "GetAllDocuments b ks = map (\<lambda>k. the (documents b k)) ks"
    by (simp add: GetAllDocuments_def range_values_map map_order_def)
  moreover have "ID (the (documents b k)) = k" if "k \<in> set ks" for k
    using that o i by (auto simp: map_order_def)
  ultimately show ?thesis by (simp add: map_idI)
qed

lemma Vector_Load_one_generation:
  assumes l: "LoadKnowledgeBase u (base v) dir fs = (None, b)"
    and o: "map_order (documents b) ks"
  shows "\<exists>dv. Vector_LoadKnowledgeBase u v dir fs ks
        = (None, \<lparr>base = b, embedding = BuildVocabulary u (GetAllDocuments b ks), docVectors = dv\<rparr>)
     \<and> dom dv = dom (documents b)
     \<and> (\<forall>k doc. documents b k = Some doc \<longrightarrow>
           GetEmbedding u (BuildVocabulary u (GetAllDocuments b ks)) (Content doc) = Inr (the (dv k)))"
proof -
  let ?docs = "GetAllDocuments b ks"
  let ?e = "BuildVocabulary u ?docs"
  have i: "\<forall>k d. documents b k = Some d \<longrightarrow> ID d = k"
    using Load_success_ID [OF l] by blast
  have ids: "map ID ?docs = ks" by (rule GetAllDocuments_IDs [OF o i])
  from o have di: "distinct (map ID ?docs)" by (simp add: ids map_order_def)
  have "ID ` set ?docs = set (map ID ?docs)" by simp
  also have "\<dots> = dom (documents b)" using o by (simp add: ids map_order_def)
  finally have keys: "ID ` set ?docs = dom (documents b)" .
  have mem: "doc \<in> set ?docs" if "documents b k = Some doc" for k doc
    using that set_range_values [OF o] by (auto simp: GetAllDocuments_def ran_def)
  from vector_loop_result [OF BuildVocabulary_dense [of u ?docs], of u ?docs Map.empty]
  show ?thesis
  proof (elim exE conjE)
    fix dv
    assume r1: "vector_loop u ?e ?docs Map.empty = Inr dv"
      and r2: "dom dv = dom Map.empty \<union> ID ` set ?docs"
      and r3: "\<forall>doc\<in>set ?docs. distinct (map ID ?docs) \<longrightarrow>
           GetEmbedding u ?e (Content doc) = Inr (the (dv (ID doc)))"
    from r2 keys have dm: "dom dv = dom (documents b)" by simp
    have run: "Vector_LoadKnowledgeBase u v dir fs ks
        = (None, \<lparr>base = b, embedding = ?e, docVectors = dv\<rparr>)"
      using l r1 by (simp add: Vector_LoadKnowledgeBase_def Let_def)
    have e: "GetEmbedding u ?e (Content doc) = Inr (the (dv k))" if "documents b k = Some doc" for k doc
    proof -
      from r3 di mem [OF that] have "GetEmbedding u ?e (Content doc) = Inr (the (dv (ID doc)))" by simp
      with i that show ?thesis by simp
    qed
    from run dm e show ?thesis by blast
  qed
qed

lemma Vector_Refresh_keeps_vectors:
  "embedding (snd (Vector_RefreshKnowledgeBase u v fs)) = embedding v
   \<and> docVectors (snd (Vector_RefreshKnowledgeBase u v fs)) = docVectors v
   \<and> base (snd (Vector_RefreshKnowledgeBase u v fs)) = snd (RefreshKnowledgeBase u (base v) fs)
   \<and> fst (Vector_RefreshKnowledgeBase u v fs) = fst (RefreshKnowledgeBase u (base v) fs)"
  by (simp add: Vector_RefreshKnowledgeBase_def split: prod.split)

lemma Refresh_index_two:
  "Vector_RefreshKnowledgeBase u index_two two_files_changed = (None, index_refreshed)"
proof -
  have "knowledgeDir (base index_two) = ''kb''" by (simp add: index_two_def)
  then show ?thesis
    by (simp add: Vector_RefreshKnowledgeBase_def RefreshKnowledgeBase_def Load_two_files_changed
        index_two_def index_refreshed_def)
qed

lemma vocabulary_birds:
  "map fst (vocabulary (BuildVocabulary u [doc_birds, doc_dogs])) = [''birds'', ''are'', ''great'', ''dogs'']"
  by (simp add: BuildVocabulary_def doc_birds_def doc_dogs_def tokenize_birds_are_great
      tokenize_dogs_are_great)

lemma VectorSearch_refreshed_cats:
  "VectorSearch u index_refreshed ''cats'' 5 [''a'', ''b''] = Inr [\<lparr>Doc = doc_birds, Score = 1\<rparr>]"
  by (simp add: VectorSearch_def index_refreshed_def GetEmbedding_cats
      cosine_same_axis [OF ln2_pos] cosine_other_axis sort_by_score_def)

lemma VectorSearch_refreshed_birds:
  "VectorSearch u index_refreshed ''birds'' 5 [''a'', ''b''] = Inr []"
  by (simp add: VectorSearch_def index_refreshed_def GetEmbedding_birds
      CosineSimilarity_def sort_by_score_def)

text \<open>
  C2. A load of the vector service builds documents, vocabulary, IDF table and vectors
  from the same documents (lemma \<open>Vector_Load_one_generation\<close>). A refresh does not:
  \<open>RefreshKnowledgeBase\<close> on the vector service is the method of the embedded service
  and reloads the documents only (lemma \<open>Vector_Refresh_keeps_vectors\<close>). Below, the
  service is loaded with two files, the first file is changed from cats to birds, and
  the service is refreshed. The documents are the new ones; vocabulary, IDF table and
  vectors are the old ones. A search for cats returns the document about birds with
  score 1, and a search for birds returns nothing.
\<close>

theorem refresh_keeps_old_vectors:
  "Vector_LoadKnowledgeBase u NewVectorKnowledgeService ''kb'' two_files [''a'', ''b''] = (None, index_two)
   \<and> Vector_RefreshKnowledgeBase u index_two two_files_changed = (None, index_refreshed)
   \<and> GetAllDocuments (base index_refreshed) [''a'', ''b''] = [doc_birds, doc_dogs]
   \<and> embedding index_refreshed = BuildVocabulary u [doc_cats, doc_dogs]
   \<and> docVectors index_refreshed = docVectors index_two
   \<and> map fst (vocabulary (embedding index_refreshed)) = [''cats'', ''are'', ''great'', ''dogs'']
   \<and> map fst (vocabulary (BuildVocabulary u [doc_birds, doc_dogs])) = [''birds'', ''are'', ''great'', ''dogs'']
   \<and> VectorSearch u index_refreshed ''cats'' 5 [''a'', ''b''] = Inr [\<lparr>Doc = doc_birds, Score = 1\<rparr>]
   \<and> VectorSearch u index_refreshed ''birds'' 5 [''a'', ''b''] = Inr []"
proof -
  have g: "GetAllDocuments (base index_refreshed) [''a'', ''b''] = [doc_birds, doc_dogs]"
    by (simp add: GetAllDocuments_def range_values_def index_refreshed_def)
  have e: "embedding index_refreshed = BuildVocabulary u [doc_cats, doc_dogs]"
    by (simp add: BuildVocabulary_two index_refreshed_def)
  have dv: "docVectors index_refreshed = docVectors index_two"
    by (simp add: index_refreshed_def index_two_def)
  have vo: "map fst (vocabulary (embedding index_refreshed)) = [''cats'', ''are'', ''great'', ''dogs'']"
    by (simp add: index_refreshed_def embedding_two_def)
  from Vector_Load_two_files Refresh_index_two g e dv vo vocabulary_birds
    VectorSearch_refreshed_cats VectorSearch_refreshed_birds
  show ?thesis by (simp only: simp_thms)
qed

end
